theory Spec2Isabelle
  imports Complex_Main "HOL-Library.Signed_Division"
begin

section \<open>The spectrum analyser of Source/MainComponent.h\<close>

text \<open>
  The component keeps a capture window (\<open>fifo\<close>), a snapshot and spectrum buffer
  (\<open>fftData\<close>), a ready flag, the table of scale frequencies and the table of bars.
  Values of type \<open>float\<close> and \<open>double\<close> are modelled by the real numbers they
  denote: the rounding of the arithmetic is not modelled. The sample rate, by which
  the code divides, also has the values of a \<open>double\<close> that are not nonzero numbers
  (type \<open>double\<close> below). What IEEE arithmetic does at a division by them, and what
  a conversion from \<open>float\<close> to \<open>int\<close> cannot take, is written out where the code
  divides or converts.
\<close>

subsection \<open>Constants and data\<close>

definition fftOrder :: nat where
  "fftOrder = 11"

definition fftSize :: nat where
  "fftSize = 2 ^ fftOrder"

text \<open>
  The values a \<open>double\<close> can hold. \<open>Finite r\<close> is the double that denotes the
  real number \<open>r\<close>, and \<open>Finite 0\<close> is the zero with the positive sign; the zero
  with the negative sign, the two infinities and NaN, which no real number tells
  apart, are values of their own. \<open>_sampleRate\<close> is the one variable of the
  program that is modelled with them: it is the only divisor that is a variable.
\<close>

datatype double = Finite real | NegZero | PosInf | NegInf | NaN

record Bar =
  posX :: int
  dataIdx :: int
  endIdx :: int
  factor :: real

record MainComponent =
  fifo :: "real list"
  fftData :: "real list"
  fifoIndex :: nat
  nextFFTBlockReady :: bool
  temperedScale :: "real list"
  allBars :: "Bar list"
  sampleRate :: double
  minFreq :: real
  maxFreq :: real

text \<open>
  The two arrays have a fixed size, and the write cursor never passes the end of the
  capture window. A state with these three properties is called well formed;
  \<open>pushNextSampleIntoFifo\<close> keeps them (lemma \<open>wellFormed_push\<close>), so every write
  \<open>fifo[fifoIndex++]\<close> of a well-formed state is inside the array.
\<close>

definition wellFormed :: "MainComponent \<Rightarrow> bool" where
  "wellFormed s \<longleftrightarrow>
     length (fifo s) = fftSize \<and> length (fftData s) = 2 * fftSize \<and> fifoIndex s \<le> fftSize"

subsection \<open>The capture path\<close>

text \<open>
  \<open>pushNextSampleIntoFifo\<close>: when the cursor has reached \<open>fftSize\<close>, and only if
  the ready flag is down, \<open>fftData\<close> is zeroed and the window copied to its front,
  and the flag is raised; the cursor goes back to 0 either way. Then the sample is
  stored at the cursor.
\<close>

definition pushNextSampleIntoFifo :: "real \<Rightarrow> MainComponent \<Rightarrow> MainComponent" where
  "pushNextSampleIntoFifo sample s =
     (let s1 =
        (if fifoIndex s = fftSize
         then (if \<not> nextFFTBlockReady s
               then s\<lparr>fftData := fifo s @ replicate (length (fftData s) - length (fifo s)) 0,
                      nextFFTBlockReady := True\<rparr>
               else s)\<lparr>fifoIndex := 0\<rparr>
         else s)
      in s1\<lparr>fifo := (fifo s1)[fifoIndex s1 := sample], fifoIndex := fifoIndex s1 + 1\<rparr>)"

text \<open>\<open>getNextAudioBlock\<close> pushes the samples of channel 0 one by one, in order.\<close>

definition getNextAudioBlock :: "real list \<Rightarrow> MainComponent \<Rightarrow> MainComponent" where
  "getNextAudioBlock channelData s = foldl (\<lambda>t x. pushNextSampleIntoFifo x t) s channelData"

text \<open>
  \<open>timerCallback\<close>: the render tick. The windowing function and the transform of
  \<open>drawNextFrameOfSpectrum\<close> belong to the JUCE library; they are the parameter
  \<open>transform\<close>.
\<close>

definition timerCallback :: "(real list \<Rightarrow> real list) \<Rightarrow> MainComponent \<Rightarrow> MainComponent" where
  "timerCallback transform s =
     (if nextFFTBlockReady s
      then s\<lparr>fftData := transform (fftData s), nextFFTBlockReady := False\<rparr>
      else s)"

subsection \<open>Errors\<close>

text \<open>
  The code has no error returns. Three of its operations have no defined result on
  some inputs, and the model returns an error there instead of a value: a read of
  \<open>fftData\<close> outside the array, the remainder \<open>i % groupNotes\<close> with
  \<open>groupNotes = 0\<close>, and the conversion to \<open>int\<close> of a \<open>float\<close> that has no
  \<open>int\<close> value.
\<close>

datatype error = OutOfBounds | ModuloByZero | FloatToInt

subsection \<open>The scale mapper\<close>

text \<open>
  \<open>round\<close> of the C library: to the nearest integer, halfway cases away from zero.
\<close>

definition round_c :: "real \<Rightarrow> int" where
  "round_c x = (if 0 \<le> x then \<lfloor>x + 1 / 2\<rfloor> else - \<lfloor>- x + 1 / 2\<rfloor>)"

text \<open>
  \<open>freqToBin\<close> returns a \<open>float\<close> that every caller converts to \<open>int\<close>; the
  model returns that integer, and \<open>None\<close> where the \<open>float\<close> has no \<open>int\<close>
  value and the conversion is undefined: for \<open>-inf\<close> and for a rounded quotient
  below \<open>-2^31\<close>. The quotient \<open>(freq * fftSize) / _sampleRate\<close> by a value that
  is not a nonzero number follows IEEE 754:
  \<^item> by \<open>+0.0\<close> it is \<open>+inf\<close> for a positive frequency, NaN for frequency 0 and
    \<open>-inf\<close> for a negative one; by \<open>-0.0\<close> the two infinities change places;
  \<^item> by an infinity it is a zero, which rounds to bin 0;
  \<^item> by NaN it is NaN.
  For \<open>+inf\<close> and NaN the comparison \<open>bin < fftSize / 2\<close> is false and the
  result is \<open>fftSize - 1\<close>; \<open>-inf\<close> passes the comparison and is returned as it
  is.
\<close>

definition freqToBin :: "double \<Rightarrow> real \<Rightarrow> int option" where
  "freqToBin sr freq =
     (case sr of
        Finite r \<Rightarrow>
          (if r = 0
           then (if freq < 0 then None else Some (int fftSize - 1))
           else (let bin = round_c ((freq * real fftSize) / r)
                 in if bin < int (fftSize div 2)
                    then (if - (2 ^ 31) \<le> bin then Some bin else None)
                    else Some (int fftSize - 1)))
      | NegZero \<Rightarrow> (if 0 < freq then None else Some (int fftSize - 1))
      | PosInf \<Rightarrow> Some 0
      | NegInf \<Rightarrow> Some 0
      | NaN \<Rightarrow> Some (int fftSize - 1))"

text \<open>
  The bin as the specification words it (section 4.3, step 2): the rounded quotient,
  clamped to at most \<open>windowSize / 2 - 1\<close>. It is compared with \<open>freqToBin\<close>
  below and is not part of the model of the code.
\<close>

definition clampedBin_spec :: "real \<Rightarrow> real \<Rightarrow> int" where
  "clampedBin_spec sr freq = min (round_c ((freq * real fftSize) / sr)) (int (fftSize div 2) - 1)"

text \<open>
  The starting bin of a bar as the specification words it (section 4.3, step 3): a bar
  whose own bin is at most \<open>prevBin + 1\<close> starts at \<open>prevBin + 1\<close>, any other
  bar at its own bin. It is compared with the loop below and is not part of the model
  of the code.
\<close>

definition startBin_spec :: "int \<Rightarrow> int \<Rightarrow> int" where
  "startBin_spec prevBin' bin = (if bin \<le> prevBin' + 1 then prevBin' + 1 else bin)"

text \<open>
  The frequencies of the equal-tempered scale in quarter tones:
  \<open>root24 = pow(2, 1/24)\<close>, \<open>c0 = 440 * pow(root24, -114)\<close>, and the frequency
  at step \<open>i\<close> is \<open>c0 * pow(root24, i)\<close>.
\<close>

definition root24 :: real where
  "root24 = 2 powr (1 / 24)"

definition c0 :: real where
  "c0 = 440 * root24 powr (- 114)"

definition freqAt :: "nat \<Rightarrow> real" where
  "freqAt i = c0 * root24 powr (real i)"

lemma root24_gt_1: "1 < root24"
  by (simp add: root24_def)

lemma c0_pos: "0 < c0"
  using root24_gt_1 by (simp add: c0_def)

lemma freqAt_power: "freqAt i = c0 * root24 ^ i"
  using root24_gt_1 by (simp add: freqAt_def powr_realpow)

lemma freqAt_pos: "0 < freqAt i"
  using c0_pos root24_gt_1 by (simp add: freqAt_power)

lemma freqAt_strict_mono: "i < j \<Longrightarrow> freqAt i < freqAt j"
  using c0_pos root24_gt_1 by (simp add: freqAt_power)

lemma freqAt_mono: "i \<le> j \<Longrightarrow> freqAt i \<le> freqAt j"
  using c0_pos root24_gt_1 by (simp add: freqAt_power)

lemma freqAt_unbounded: "\<exists>n. hi < freqAt n"
proof -
  from real_arch_pow [OF root24_gt_1, of "hi / c0"] obtain n where "hi / c0 < root24 ^ n" ..
  then have "hi < c0 * root24 ^ n"
    using c0_pos by (simp add: field_simps)
  then show ?thesis
    by (auto simp: freqAt_power)
qed

text \<open>The first step whose frequency is above \<open>hi\<close>: where the generator stops.\<close>

definition stopIndex :: "real \<Rightarrow> nat" where
  "stopIndex hi = (LEAST n. hi < freqAt n)"

lemma stopIndex_above: "hi < freqAt (stopIndex hi)"
  unfolding stopIndex_def using freqAt_unbounded by (rule LeastI_ex)

lemma below_stopIndex: "freqAt i \<le> hi \<Longrightarrow> i < stopIndex hi"
proof (rule ccontr)
  assume le: "freqAt i \<le> hi" and "\<not> i < stopIndex hi"
  then have "freqAt (stopIndex hi) \<le> freqAt i"
    by (simp add: freqAt_mono)
  with le stopIndex_above [of hi] show False by simp
qed

text \<open>
  The \<open>while\<close> loop of \<open>buildTemperedScale\<close>: it appends to \<open>temperedScale\<close>
  every frequency that is at least \<open>minFreq\<close> and whose step is a multiple of
  \<open>groupNotes\<close>, until a frequency exceeds \<open>maxFreq\<close>. The remainder is taken
  only when \<open>freq >= minFreq\<close> holds (\<open>&&\<close> evaluates its right side only
  then); it is C's truncating \<open>%\<close>.
\<close>

function scaleLoop :: "int \<Rightarrow> real \<Rightarrow> real \<Rightarrow> nat \<Rightarrow> real list \<Rightarrow> error + real list" where
  "scaleLoop groupNotes lo hi i ts =
     (if freqAt i \<le> hi
      then (if freqAt i \<ge> lo
            then (if groupNotes = 0 then Inl ModuloByZero
                  else if int i smod groupNotes = 0
                       then scaleLoop groupNotes lo hi (i + 1) (ts @ [freqAt i])
                       else scaleLoop groupNotes lo hi (i + 1) ts)
            else scaleLoop groupNotes lo hi (i + 1) ts)
      else Inr ts)"
  by pat_completeness auto
termination
proof (relation "measure (\<lambda>(groupNotes, lo, hi, i, ts). stopIndex hi - i)")
qed (auto dest: below_stopIndex)

declare scaleLoop.simps [simp del]

text \<open>
  The state of the \<open>for\<close> loop over \<open>temperedScale\<close>: the three counters and
  the vector \<open>allBars\<close> as it grows.
\<close>

record Walk =
  prevBin :: int
  prevIdx :: int
  nBars :: nat
  bars :: "Bar list"

text \<open>
  The inner loop that writes the interpolation factors of the run that has just
  ended: \<open>allBars[allBars.size() - nBars + iFactor].factor = (iFactor + 1) / nBars\<close>
  for \<open>iFactor\<close> from 0 below \<open>nBars\<close>. The run lies inside the vector
  (lemma \<open>barLoop_inv\<close>), so every index is in range.
\<close>

definition setFactors :: "nat \<Rightarrow> Bar list \<Rightarrow> Bar list" where
  "setFactors n bs =
     foldl (\<lambda>acc iFactor.
              acc[length acc - n + iFactor :=
                    (acc ! (length acc - n + iFactor))\<lparr>factor := (real iFactor + 1) / real n\<rparr>])
           bs [0..<n]"

text \<open>One iteration of the \<open>for\<close> loop, for the scale entry at \<open>index\<close>.\<close>

definition barStep :: "double \<Rightarrow> real list \<Rightarrow> nat \<Rightarrow> Walk \<Rightarrow> error + Walk" where
  "barStep sr ts index w =
     (case freqToBin sr (ts ! index) of
        None \<Rightarrow> Inl FloatToInt
      | Some bin \<Rightarrow>
          (let idx = (if prevBin w > 0 \<and> prevBin w + 1 \<le> bin then prevBin w + 1 else bin);
               w1 = (if idx = prevIdx w
                     then w\<lparr>nBars := nBars w + 1\<rparr>
                     else w\<lparr>bars := (if nBars w > 1 then setFactors (nBars w) (bars w) else bars w),
                            prevIdx := idx, nBars := 1\<rparr>)
           in case (if index + 1 < length ts
                    then (case freqToBin sr (ts ! (index + 1)) of
                            None \<Rightarrow> Inl FloatToInt
                          | Some nextBin \<Rightarrow>
                              Inr (if nextBin - bin > 1
                                   then bin + round_c (real_of_int (nextBin - bin) / 2)
                                   else bin))
                    else Inr bin) of
                Inl e \<Rightarrow> Inl e
              | Inr pb \<Rightarrow>
                  Inr (w1\<lparr>prevBin := pb,
                          bars := bars w1 @
                            [\<lparr>posX = int index, dataIdx = idx,
                              endIdx = (if pb - idx > 0 then pb else 0), factor = 0\<rparr>]\<rparr>)))"

text \<open>
  The loop after its first \<open>n\<close> iterations (indices \<open>0 .. n - 1\<close>); the whole loop
  is \<open>barLoop sr ts (length ts)\<close>.
\<close>

primrec barLoop :: "double \<Rightarrow> real list \<Rightarrow> nat \<Rightarrow> Walk \<Rightarrow> error + Walk" where
  "barLoop sr ts 0 w = Inr w"
| "barLoop sr ts (Suc n) w =
     (case barLoop sr ts n w of Inl e \<Rightarrow> Inl e | Inr w' \<Rightarrow> barStep sr ts n w')"

text \<open>
  \<open>buildTemperedScale\<close>: both loops work on the member vectors \<open>temperedScale\<close>
  and \<open>allBars\<close> as they find them; nothing clears them.
\<close>

definition buildTemperedScale :: "int \<Rightarrow> MainComponent \<Rightarrow> error + MainComponent" where
  "buildTemperedScale groupNotes s =
     (case scaleLoop groupNotes (minFreq s) (maxFreq s) 0 (temperedScale s) of
        Inl e \<Rightarrow> Inl e
      | Inr ts \<Rightarrow>
          (case barLoop (sampleRate s) ts (length ts)
                  \<lparr>prevBin = 0, prevIdx = 0, nBars = 0, bars = allBars s\<rparr> of
             Inl e \<Rightarrow> Inl e
           | Inr w \<Rightarrow> Inr (s\<lparr>temperedScale := ts, allBars := bars w\<rparr>)))"

subsection \<open>The level renderer\<close>

text \<open>
  Modelled from the spec: \<open>juce::Decibels::gainToDecibels\<close>, \<open>juce::jlimit\<close> and
  \<open>juce::jmap\<close> are functions of the JUCE library, which is not under src/. The
  specification (section 4.4) has a magnitude converted to decibels, with a floor of
  -100 dB that a magnitude of 0 takes, clamped between a floor and a ceiling, and
  mapped linearly between two ends; the definitions are the library's.
\<close>

definition gainToDecibels :: "real \<Rightarrow> real" where
  "gainToDecibels gain = (if gain > 0 then max (- 100) (log 10 gain * 20) else - 100)"

definition jlimit :: "real \<Rightarrow> real \<Rightarrow> real \<Rightarrow> real" where
  "jlimit lowerLimit upperLimit v =
     (if v < lowerLimit then lowerLimit else if upperLimit < v then upperLimit else v)"

definition jmap :: "real \<Rightarrow> real \<Rightarrow> real \<Rightarrow> real \<Rightarrow> real \<Rightarrow> real" where
  "jmap v sourceMin sourceMax targetMin targetMax =
     targetMin + ((targetMax - targetMin) * (v - sourceMin)) / (sourceMax - sourceMin)"

text \<open>\<open>getLevel\<close> reads \<open>fftData[i]\<close>; a read outside the array is an error.\<close>

definition getLevel :: "real list \<Rightarrow> int \<Rightarrow> real \<Rightarrow> error + real" where
  "getLevel fd i height =
     (if 0 \<le> i \<and> nat i < length fd
      then (let newGain = fd ! nat i;
                db = jlimit (- 100) 0 (gainToDecibels newGain - gainToDecibels (real fftSize))
            in Inr (jmap db (- 100) 0 height 0))
      else Inl OutOfBounds)"

text \<open>
  The loop of \<open>drawFrame\<close> over the bins \<open>j = dataIdx .. endIdx\<close> of a bar with a
  nonzero end bin: it compares the magnitude \<open>fftData[j]\<close> with \<open>barHeight\<close> and,
  when it is greater, sets \<open>barHeight\<close> to the level of bin \<open>j\<close>.
\<close>

function peakLoop :: "real list \<Rightarrow> real \<Rightarrow> int \<Rightarrow> int \<Rightarrow> real \<Rightarrow> error + real" where
  "peakLoop fd height j e barHeight =
     (if j \<le> e
      then (if 0 \<le> j \<and> nat j < length fd
            then (if fd ! nat j > barHeight
                  then (case getLevel fd j height of
                          Inl err \<Rightarrow> Inl err
                        | Inr level \<Rightarrow> peakLoop fd height (j + 1) e level)
                  else peakLoop fd height (j + 1) e barHeight)
            else Inl OutOfBounds)
      else Inr barHeight)"
  by pat_completeness auto
termination
  by (relation "measure (\<lambda>(fd, height, j, e, barHeight). nat (e + 1 - j))") auto

declare peakLoop.simps [simp del]

text \<open>The height \<open>drawFrame\<close> computes for one bar.\<close>

definition barHeightOf :: "real list \<Rightarrow> real \<Rightarrow> Bar \<Rightarrow> error + real" where
  "barHeightOf fd windowHeight bar =
     (if endIdx bar = 0
      then (case getLevel fd (dataIdx bar) windowHeight of
              Inl err \<Rightarrow> Inl err
            | Inr level \<Rightarrow>
                (if factor bar > 0
                 then (case (if dataIdx bar > 0 then getLevel fd (dataIdx bar - 1) windowHeight
                             else Inr level) of
                         Inl err \<Rightarrow> Inl err
                       | Inr prevBar \<Rightarrow> Inr (prevBar + (level - prevBar) * factor bar))
                 else Inr level))
      else peakLoop fd windowHeight (dataIdx bar) (endIdx bar) 0)"

text \<open>
  \<open>drawFrame\<close>, for a canvas of height \<open>windowHeight\<close>: the heights of the bars in
  table order, each the second argument of its \<open>fillRect\<close>. The horizontal position
  and the width of the rectangles depend on the canvas width only and are left out.
\<close>

fun drawBars :: "real list \<Rightarrow> real \<Rightarrow> Bar list \<Rightarrow> error + real list" where
  "drawBars fd windowHeight [] = Inr []"
| "drawBars fd windowHeight (b # bs) =
     (case barHeightOf fd windowHeight b of
        Inl err \<Rightarrow> Inl err
      | Inr y \<Rightarrow> (case drawBars fd windowHeight bs of Inl err \<Rightarrow> Inl err | Inr ys \<Rightarrow> Inr (y # ys)))"

definition drawFrame :: "MainComponent \<Rightarrow> real \<Rightarrow> error + real list" where
  "drawFrame s windowHeight = drawBars (fftData s) windowHeight (allBars s)"

subsection \<open>Construction\<close>

text \<open>
  The fields of a component when the body of its constructor starts: the vectors are
  empty, the frequency range is 20 Hz to 22 kHz, and \<open>_sampleRate\<close> has no
  initialiser, so it holds whatever value \<open>sr\<close> it happens to hold. The two arrays
  have no initialiser either; here they are silent. The constructor then calls
  \<open>buildTemperedScale (2)\<close>.
\<close>

definition fresh :: "double \<Rightarrow> MainComponent" where
  "fresh sr = \<lparr>fifo = replicate fftSize 0, fftData = replicate (2 * fftSize) 0,
     fifoIndex = 0, nextFFTBlockReady = False, temperedScale = [], allBars = [],
     sampleRate = sr, minFreq = 20, maxFreq = 22000\<rparr>"

definition initial :: MainComponent where
  "initial = fresh (Finite 44100)"

text \<open>
  The component as the constructor leaves it when \<open>_sampleRate\<close> holds \<open>sr\<close>;
  lemma \<open>constructed_ok\<close> shows that the call returns when \<open>sr\<close> is \<open>+0.0\<close> or a
  positive number.
\<close>

definition constructed :: "double \<Rightarrow> MainComponent" where
  "constructed sr = projr (buildTemperedScale 2 (fresh sr))"


text \<open>
  The component after one more call \<open>buildTemperedScale (2)\<close>, where that call
  returns.
\<close>

definition rebuilt :: "MainComponent \<Rightarrow> MainComponent" where
  "rebuilt s = projr (buildTemperedScale 2 s)"

subsection \<open>The two loops in closed form\<close>

text \<open>
  The definitions of this subsection are not part of the program: they say what the
  loops compute, and the lemmas \<open>scaleLoop_kept\<close> and \<open>barLoop_inv\<close> prove that the
  loops compute it.

  The steps whose frequencies the \<open>while\<close> loop keeps, from step \<open>i\<close> on.
\<close>

definition keptSteps :: "int \<Rightarrow> real \<Rightarrow> real \<Rightarrow> nat \<Rightarrow> nat list" where
  "keptSteps groupNotes lo hi i =
     filter (\<lambda>j. lo \<le> freqAt j \<and> int j smod groupNotes = 0) [i..<stopIndex hi]"

text \<open>
  The bin of scale entry \<open>k\<close>; the value of \<open>prevBin\<close> after and before the iteration
  for entry \<open>k\<close>; the starting bin and the end bin given to bar \<open>k\<close>.
\<close>

definition binAt :: "double \<Rightarrow> real list \<Rightarrow> nat \<Rightarrow> int" where
  "binAt sr ts k = the (freqToBin sr (ts ! k))"

definition prevBinAfter :: "double \<Rightarrow> real list \<Rightarrow> nat \<Rightarrow> int" where
  "prevBinAfter sr ts k =
     (if k + 1 < length ts \<and> binAt sr ts (k + 1) - binAt sr ts k > 1
      then binAt sr ts k + round_c (real_of_int (binAt sr ts (k + 1) - binAt sr ts k) / 2)
      else binAt sr ts k)"

definition prevBinBefore :: "double \<Rightarrow> real list \<Rightarrow> nat \<Rightarrow> int" where
  "prevBinBefore sr ts k = (if k = 0 then 0 else prevBinAfter sr ts (k - 1))"

definition startIdx :: "double \<Rightarrow> real list \<Rightarrow> nat \<Rightarrow> int" where
  "startIdx sr ts k =
     (if prevBinBefore sr ts k > 0 \<and> prevBinBefore sr ts k + 1 \<le> binAt sr ts k
      then prevBinBefore sr ts k + 1 else binAt sr ts k)"

definition endOf :: "double \<Rightarrow> real list \<Rightarrow> nat \<Rightarrow> int" where
  "endOf sr ts k = (if prevBinAfter sr ts k - startIdx sr ts k > 0 then prevBinAfter sr ts k else 0)"

text \<open>Every entry of the scale has a bin that converts to \<open>int\<close>.\<close>

definition binsDefined :: "double \<Rightarrow> real list \<Rightarrow> bool" where
  "binsDefined sr ts \<longleftrightarrow> (\<forall>k < length ts. freqToBin sr (ts ! k) \<noteq> None)"

text \<open>
  The invariant of the \<open>for\<close> loop after \<open>n\<close> iterations, started on the vector
  \<open>bs0\<close>: the counters and the positions, starting bins and end bins of all bars are
  the closed forms; the current run has \<open>nBars\<close> bars, all of them among the bars of
  this call, and their factors are still 0.
\<close>

definition loopInv :: "double \<Rightarrow> real list \<Rightarrow> Bar list \<Rightarrow> nat \<Rightarrow> Walk \<Rightarrow> bool" where
  "loopInv sr ts bs0 n w \<longleftrightarrow>
     prevBin w = prevBinBefore sr ts n
   \<and> length (bars w) = length bs0 + n
   \<and> map posX (bars w) = map posX bs0 @ map int [0..<n]
   \<and> map dataIdx (bars w) = map dataIdx bs0 @ map (startIdx sr ts) [0..<n]
   \<and> map endIdx (bars w) = map endIdx bs0 @ map (endOf sr ts) [0..<n]
   \<and> nBars w \<le> n
   \<and> (0 < n \<longrightarrow> 0 < nBars w \<and> prevIdx w = startIdx sr ts (n - 1))
   \<and> (1 < n \<and> startIdx sr ts (n - 1) = startIdx sr ts (n - 2) \<longrightarrow> 1 < nBars w)
   \<and> (\<forall>k < nBars w. factor (bars w ! (length (bars w) - 1 - k)) = 0)"

section \<open>Properties of the capture path\<close>

lemma fftSize_pos: "0 < fftSize"
  by (simp add: fftSize_def)

lemma fftSize_eq: "fftSize = 2048"
  by (simp add: fftSize_def fftOrder_def)

lemma wellFormed_initial: "wellFormed initial"
  by (simp add: wellFormed_def initial_def fresh_def)

lemma wellFormed_push: "wellFormed s \<Longrightarrow> wellFormed (pushNextSampleIntoFifo x s)"
  using fftSize_pos by (auto simp: wellFormed_def pushNextSampleIntoFifo_def Let_def)

lemma wellFormed_block: "wellFormed s \<Longrightarrow> wellFormed (getNextAudioBlock xs s)"
  unfolding getNextAudioBlock_def
  by (induction xs arbitrary: s) (simp_all add: wellFormed_push)

lemma block_append:
  "getNextAudioBlock (xs @ ys) s = getNextAudioBlock ys (getNextAudioBlock xs s)"
  by (simp add: getNextAudioBlock_def)

lemma block_Cons:
  "getNextAudioBlock (x # xs) s = getNextAudioBlock xs (pushNextSampleIntoFifo x s)"
  by (simp add: getNextAudioBlock_def)

lemma block_Nil: "getNextAudioBlock [] s = s"
  by (simp add: getNextAudioBlock_def)

text \<open>Below the end of the window a push only stores the sample and moves the cursor.\<close>

lemma push_below:
  "fifoIndex s < fftSize \<Longrightarrow>
   pushNextSampleIntoFifo x s = s\<lparr>fifo := (fifo s)[fifoIndex s := x], fifoIndex := fifoIndex s + 1\<rparr>"
  by (simp add: pushNextSampleIntoFifo_def)

lemma block_fill:
  "fifoIndex s + length xs \<le> fftSize \<Longrightarrow> length (fifo s) = fftSize \<Longrightarrow>
   getNextAudioBlock xs s =
     s\<lparr>fifo := take (fifoIndex s) (fifo s) @ xs @ drop (fifoIndex s + length xs) (fifo s),
       fifoIndex := fifoIndex s + length xs\<rparr>"
proof (induction xs arbitrary: s)
  case Nil
  then show ?case by (simp add: block_Nil)
next
  case (Cons x xs)
  let ?t = "s\<lparr>fifo := (fifo s)[fifoIndex s := x], fifoIndex := fifoIndex s + 1\<rparr>"
  from Cons.prems have lt: "fifoIndex s < fftSize" by simp
  have step: "pushNextSampleIntoFifo x s = ?t"
    using lt by (rule push_below)
  have pre: "fifoIndex ?t + length xs \<le> fftSize" "length (fifo ?t) = fftSize"
    using Cons.prems by simp_all
  have upd: "take (Suc (fifoIndex s)) ((fifo s)[fifoIndex s := x]) = take (fifoIndex s) (fifo s) @ [x]"
    using lt Cons.prems(2) by (simp add: take_Suc_conv_app_nth)
  show ?case
    unfolding block_Cons step Cons.IH [OF pre]
    using upd by simp
qed

text \<open>At the end of the window, with the flag down, a push hands the window over.\<close>

lemma push_handoff:
  "fifoIndex s = fftSize \<Longrightarrow> \<not> nextFFTBlockReady s \<Longrightarrow>
   pushNextSampleIntoFifo x s =
     s\<lparr>fftData := fifo s @ replicate (length (fftData s) - length (fifo s)) 0,
       nextFFTBlockReady := True, fifo := (fifo s)[0 := x], fifoIndex := 1\<rparr>"
  by (simp add: pushNextSampleIntoFifo_def)

text \<open>With the flag up, a push never writes \<open>fftData\<close> and never lowers the flag.\<close>

lemma push_ready:
  "nextFFTBlockReady s \<Longrightarrow>
   fftData (pushNextSampleIntoFifo x s) = fftData s \<and> nextFFTBlockReady (pushNextSampleIntoFifo x s)"
  by (simp add: pushNextSampleIntoFifo_def Let_def)

lemma block_ready:
  "nextFFTBlockReady s \<Longrightarrow>
   fftData (getNextAudioBlock xs s) = fftData s \<and> nextFFTBlockReady (getNextAudioBlock xs s)"
proof (induction xs arbitrary: s)
  case Nil
  then show ?case by (simp add: block_Nil)
next
  case (Cons x xs)
  from Cons.prems have r: "nextFFTBlockReady (pushNextSampleIntoFifo x s)"
    and d: "fftData (pushNextSampleIntoFifo x s) = fftData s"
    by (simp_all add: push_ready)
  from Cons.IH [OF r] d show ?case
    by (simp add: block_Cons)
qed

text \<open>
  Two full windows \<open>xs\<close> and \<open>ys\<close> pushed into a state with an empty window and
  the flag down: the first window is handed over when the first sample of the second
  arrives, and the second window is left in \<open>fifo\<close>.
\<close>

lemma two_windows:
  assumes wf: "wellFormed s" and empty: "fifoIndex s = 0" and down: "\<not> nextFFTBlockReady s"
    and lx: "length xs = fftSize" and ly: "length ys = fftSize"
  shows "getNextAudioBlock (xs @ ys) s =
           s\<lparr>fftData := xs @ replicate fftSize 0, nextFFTBlockReady := True,
             fifo := ys, fifoIndex := fftSize\<rparr>"
proof -
  from wf have lf: "length (fifo s) = fftSize" and ld: "length (fftData s) = 2 * fftSize"
    by (simp_all add: wellFormed_def)
  let ?a = "s\<lparr>fifo := xs, fifoIndex := fftSize\<rparr>"
  have a: "getNextAudioBlock xs s = ?a"
    using block_fill [of s xs] empty lx lf by simp
  from ly fftSize_pos obtain y ys' where ys: "ys = y # ys'"
    by (cases ys) auto
  let ?b = "s\<lparr>fftData := xs @ replicate fftSize 0, nextFFTBlockReady := True,
              fifo := xs[0 := y], fifoIndex := 1\<rparr>"
  have b: "pushNextSampleIntoFifo y ?a = ?b"
    using push_handoff [of ?a y] down lx ld by simp
  have lys': "Suc (length ys') = fftSize"
    using ly ys by simp
  have c: "getNextAudioBlock ys' ?b =
             ?b\<lparr>fifo := take 1 (xs[0 := y]) @ ys' @ drop (1 + length ys') (xs[0 := y]),
                fifoIndex := 1 + length ys'\<rparr>"
    using block_fill [of ?b ys'] lys' lx by simp
  have t: "take 1 (xs[0 := y]) = [y]"
    using lx fftSize_pos by (cases xs) auto
  show ?thesis
    unfolding block_append a ys block_Cons b c t
    using lys' lx by simp
qed

text \<open>
  C9. While the ready flag is up, pushing samples, one or any number of them, leaves
  the snapshot buffer \<open>fftData\<close> as it is, and leaves the flag up: only the render
  tick lowers it.
\<close>

theorem snapshot_kept_while_ready:
  assumes "wellFormed s" and "nextFFTBlockReady s"
  shows "fftData (pushNextSampleIntoFifo x s) = fftData s
       \<and> nextFFTBlockReady (pushNextSampleIntoFifo x s)
       \<and> fftData (getNextAudioBlock xs s) = fftData s
       \<and> nextFFTBlockReady (getNextAudioBlock xs s)
       \<and> wellFormed (getNextAudioBlock xs s)"
  using assms push_ready [of s x] block_ready [of s xs] wellFormed_block [of s xs]
  by simp

theorem snapshot_kept_while_ready_witness:
  "wellFormed (initial\<lparr>nextFFTBlockReady := True\<rparr>)
   \<and> nextFFTBlockReady (initial\<lparr>nextFFTBlockReady := True\<rparr>)
   \<and> fftData (getNextAudioBlock [1, 2, 3] (initial\<lparr>nextFFTBlockReady := True\<rparr>))
       = replicate (2 * fftSize) 0
   \<and> nextFFTBlockReady (getNextAudioBlock [1, 2, 3] (initial\<lparr>nextFFTBlockReady := True\<rparr>))"
proof -
  have wf: "wellFormed (initial\<lparr>nextFFTBlockReady := True\<rparr>)"
    using wellFormed_initial by (simp add: wellFormed_def)
  have r: "nextFFTBlockReady (initial\<lparr>nextFFTBlockReady := True\<rparr>)"
    by simp
  from snapshot_kept_while_ready [OF wf r, of 1 "[1, 2, 3]"] wf show ?thesis
    by (simp add: initial_def fresh_def)
qed

text \<open>
  C2, as the code has it. From a well-formed state with an empty capture window and no
  ready frame, pushing two full windows \<open>xs\<close> and \<open>ys\<close> with no render tick in
  between leaves the flag up and the frame holding the FIRST window \<open>xs\<close> (followed
  by \<open>fftSize\<close> zeros). The second window \<open>ys\<close> is still in the capture window;
  the next push finds the flag up, does not copy it, and starts to overwrite it.
\<close>

theorem two_windows_keep_first:
  assumes "wellFormed s" and "fifoIndex s = 0" and "\<not> nextFFTBlockReady s"
    and "length xs = fftSize" and "length ys = fftSize"
  shows "nextFFTBlockReady (getNextAudioBlock (xs @ ys) s)
       \<and> fftData (getNextAudioBlock (xs @ ys) s) = xs @ replicate fftSize 0
       \<and> fifo (getNextAudioBlock (xs @ ys) s) = ys
       \<and> fifoIndex (getNextAudioBlock (xs @ ys) s) = fftSize
       \<and> fftData (pushNextSampleIntoFifo z (getNextAudioBlock (xs @ ys) s)) = xs @ replicate fftSize 0
       \<and> fifo (pushNextSampleIntoFifo z (getNextAudioBlock (xs @ ys) s)) = ys[0 := z]"
  unfolding two_windows [OF assms]
  by (simp add: pushNextSampleIntoFifo_def)

theorem two_windows_keep_first_witness:
  "wellFormed initial \<and> fifoIndex initial = 0 \<and> \<not> nextFFTBlockReady initial
   \<and> length (replicate fftSize (1::real)) = fftSize \<and> length (replicate fftSize (2::real)) = fftSize
   \<and> nextFFTBlockReady (getNextAudioBlock (replicate fftSize 1 @ replicate fftSize 2) initial)
   \<and> fftData (getNextAudioBlock (replicate fftSize 1 @ replicate fftSize 2) initial)
       = replicate fftSize 1 @ replicate fftSize 0"
proof -
  have h: "fifoIndex initial = 0" "\<not> nextFFTBlockReady initial"
    by (simp_all add: initial_def fresh_def)
  have l: "length (replicate fftSize (1::real)) = fftSize" "length (replicate fftSize (2::real)) = fftSize"
    by simp_all
  from two_windows_keep_first [OF wellFormed_initial h l] wellFormed_initial h
  show ?thesis by simp
qed

text \<open>
  C2 as the spec states it fails: after a window of ones and a window of twos, the
  frame does not hold the second window.
\<close>

theorem second_window_not_in_frame:
  "take fftSize (fftData (getNextAudioBlock (replicate fftSize 1 @ replicate fftSize 2) initial))
     \<noteq> replicate fftSize 2"
proof -
  have h: "fifoIndex initial = 0" "\<not> nextFFTBlockReady initial"
    by (simp_all add: initial_def fresh_def)
  have "fftData (getNextAudioBlock (replicate fftSize 1 @ replicate fftSize 2) initial)
          = replicate fftSize 1 @ replicate fftSize 0"
    unfolding two_windows [OF wellFormed_initial h, of "replicate fftSize 1" "replicate fftSize 2", simplified]
    by simp
  moreover have "replicate fftSize (1::real) \<noteq> replicate fftSize 2"
    using fftSize_pos by (cases fftSize) auto
  ultimately show ?thesis by simp
qed

section \<open>Properties of the scale frequencies\<close>

lemma root24_pow24: "root24 ^ 24 = 2"
proof -
  have "root24 ^ 24 = root24 powr (real 24)"
    using root24_gt_1 by (subst powr_realpow) simp_all
  also have "\<dots> = 2 powr ((1 / 24) * 24)"
    unfolding root24_def by (simp only: powr_powr of_nat_numeral)
  finally show ?thesis by simp
qed

lemma c0_root114: "c0 * root24 ^ 114 = 440"
proof -
  have "root24 powr (- 114) * root24 powr (real 114) = root24 powr 0"
    by (simp only: powr_add [symmetric]) simp
  then have "root24 powr (- 114) * root24 ^ 114 = 1"
    using root24_gt_1 by (simp add: powr_realpow)
  then show ?thesis
    by (simp add: c0_def)
qed

text \<open>Step 114 is the A of 440 Hz, and every 24 steps the frequency doubles.\<close>

lemma freqAt_octave: "freqAt (114 + 24 * k) = 440 * 2 ^ k"
proof -
  have "root24 ^ (24 * k) = 2 ^ k"
    by (simp only: power_mult root24_pow24)
  then have "freqAt (114 + 24 * k) = (c0 * root24 ^ 114) * 2 ^ k"
    by (simp only: freqAt_power power_add mult.assoc)
  then show ?thesis
    by (simp only: c0_root114)
qed

lemma freqAt_114: "freqAt 114 = 440"
  using freqAt_octave [of 0] by simp

lemma freqAt_138: "freqAt 138 = 880"
  using freqAt_octave [of 1] by simp

lemma freqAt_234: "freqAt 234 = 14080"
  using freqAt_octave [of 5] by simp

section \<open>The bin of a frequency\<close>

text \<open>
  C3. The specification clamps the rounded quotient to \<open>windowSize / 2 - 1 = 1023\<close>.
  \<open>freqToBin\<close> compares with \<open>fftSize / 2\<close> but returns \<open>fftSize - 1 = 2047\<close>:
  at a sample rate of 22050 Hz the scale frequency 14080 Hz (step 234) rounds to bin
  1308, for which the code answers 2047 and the specification 1023.
\<close>

theorem freqToBin_above_half_window:
  "freqToBin (Finite 22050) (freqAt 234) = Some 2047 \<and> clampedBin_spec 22050 (freqAt 234) = 1023"
  by (simp add: freqAt_234 freqToBin_def clampedBin_spec_def round_c_def fftSize_eq)

section \<open>Properties of the level renderer\<close>

lemma db_fftSize_pos: "0 < gainToDecibels (real fftSize)"
proof -
  have "0 < log 10 (real fftSize)"
    by (simp add: fftSize_eq)
  then show ?thesis
    by (simp add: gainToDecibels_def fftSize_pos less_max_iff_disj)
qed

text \<open>A bin whose magnitude is 0 has the floor level: the canvas height.\<close>

lemma getLevel_silent:
  "0 \<le> i \<Longrightarrow> nat i < length fd \<Longrightarrow> fd ! nat i \<le> 0 \<Longrightarrow> getLevel fd i h = Inr h"
  using db_fftSize_pos
  by (simp add: getLevel_def gainToDecibels_def jlimit_def jmap_def Let_def)

text \<open>
  The loop over a bin range changes \<open>barHeight\<close> only at a bin whose magnitude is
  greater than \<open>barHeight\<close>.
\<close>

lemma peakLoop_quiet:
  "0 \<le> j \<Longrightarrow> e < int (length fd) \<Longrightarrow> (\<forall>k. j \<le> k \<and> k \<le> e \<longrightarrow> fd ! nat k \<le> b) \<Longrightarrow>
   peakLoop fd h j e b = Inr b"
proof (induction fd h j e b rule: peakLoop.induct)
  case (1 fd height j e barHeight)
  show ?case
  proof (cases "j \<le> e")
    case False
    then show ?thesis by (simp add: peakLoop.simps [of fd height j e barHeight])
  next
    case True
    with "1.prems" have inb: "0 \<le> j \<and> nat j < length fd" and q: "\<not> fd ! nat j > barHeight"
      by (auto simp: not_less)
    have "peakLoop fd height (j + 1) e barHeight = Inr barHeight"
      using "1.IH"(2) [OF True inb q] "1.prems" by simp
    with True inb q show ?thesis
      by (simp add: peakLoop.simps [of fd height j e barHeight])
  qed
qed

text \<open>
  C1. The loop of \<open>drawFrame\<close> compares a magnitude with a pixel height. On a silent
  spectrum (all magnitudes 0) and a canvas 500 pixels high, every bin of the range
  10 .. 12 has level 500, the floor; the bar over that range is given height 0, the
  top of the canvas, which is the level of a bin at full scale.
\<close>

theorem silent_range_drawn_at_top:
  "barHeightOf (fftData initial) 500 \<lparr>posX = 0, dataIdx = 10, endIdx = 12, factor = 0\<rparr> = Inr 0
   \<and> getLevel (fftData initial) 10 500 = Inr 500
   \<and> getLevel (fftData initial) 11 500 = Inr 500
   \<and> getLevel (fftData initial) 12 500 = Inr 500"
proof -
  have len: "length (fftData initial) = 4096"
    by (simp add: initial_def fresh_def fftSize_eq)
  have z: "fftData initial ! n = 0" if "n < 4096" for n
    using that by (simp add: initial_def fresh_def fftSize_eq)
  have "fftData initial ! nat k \<le> 0" if "10 \<le> k \<and> k \<le> 12" for k
  proof -
    from that have "nat k < 4096" by arith
    then show ?thesis by (simp add: z)
  qed
  then have "peakLoop (fftData initial) 500 10 12 0 = Inr 0"
    by (intro peakLoop_quiet) (simp_all add: len)
  moreover have "getLevel (fftData initial) 10 500 = Inr 500"
    by (rule getLevel_silent) (simp_all add: len z)
  moreover have "getLevel (fftData initial) 11 500 = Inr 500"
    by (rule getLevel_silent) (simp_all add: len z)
  moreover have "getLevel (fftData initial) 12 500 = Inr 500"
    by (rule getLevel_silent) (simp_all add: len z)
  ultimately show ?thesis
    by (simp add: barHeightOf_def)
qed

lemma db_fftSize_le: "gainToDecibels (real fftSize) \<le> 100"
proof -
  have "log 10 2048 \<le> log 10 (10 ^ 5)"
    by (subst log_le_cancel_iff) simp_all
  also have "\<dots> = real 5 * log 10 10"
    by (rule log_nat_power) simp
  finally have "log 10 2048 \<le> 5"
    by simp
  then show ?thesis
    by (simp add: gainToDecibels_def fftSize_eq)
qed

text \<open>A bin at full scale has level 0, the top of the canvas.\<close>

lemma getLevel_full_scale:
  "0 \<le> i \<Longrightarrow> nat i < length fd \<Longrightarrow> fd ! nat i = real fftSize \<Longrightarrow> getLevel fd i h = Inr 0"
  by (simp add: getLevel_def jlimit_def jmap_def Let_def)

text \<open>A bin of magnitude 1 lies below the top in proportion to the reference offset.\<close>

lemma getLevel_unit:
  "0 \<le> i \<Longrightarrow> nat i < length fd \<Longrightarrow> fd ! nat i = 1 \<Longrightarrow>
   getLevel fd i h = Inr (h * gainToDecibels (real fftSize) / 100)"
  using db_fftSize_pos db_fftSize_le
  by (simp add: getLevel_def jlimit_def jmap_def Let_def gainToDecibels_def [of 1] field_simps)

text \<open>
  In the loop over a range, a later bin replaces the height of an earlier, louder one
  as soon as its magnitude exceeds that height as a number: with bin 10 at full
  scale and bin 11 at magnitude 1, the bar over 10 .. 11 gets the level of bin 11.
\<close>

lemma quiet_bin_replaces_loud:
  defines "fd \<equiv> (replicate (2 * fftSize) 0)[10 := real fftSize, 11 := 1]"
  shows "getLevel fd 10 500 = Inr 0
       \<and> getLevel fd 11 500 = Inr (5 * gainToDecibels (real fftSize))
       \<and> barHeightOf fd 500 \<lparr>posX = 0, dataIdx = 10, endIdx = 11, factor = 0\<rparr>
           = Inr (5 * gainToDecibels (real fftSize))
       \<and> 0 < 5 * gainToDecibels (real fftSize)"
proof -
  have len: "length fd = 4096"
    by (simp add: fd_def fftSize_eq)
  have v: "fd ! 10 = real fftSize" "fd ! 11 = 1"
    by (simp_all add: fd_def fftSize_eq)
  have l10: "getLevel fd 10 500 = Inr 0"
    by (rule getLevel_full_scale) (simp_all add: len v)
  have l11: "getLevel fd 11 500 = Inr (5 * gainToDecibels (real fftSize))"
    using getLevel_unit [of 11 fd 500] by (simp add: len v)
  have "peakLoop fd 500 10 11 0 = Inr (5 * gainToDecibels (real fftSize))"
    using db_fftSize_pos fftSize_pos
    by (simp add: peakLoop.simps [of fd 500 10 11] peakLoop.simps [of fd 500 11 11]
        peakLoop.simps [of fd 500 12 11] len v l10 l11)
  with l10 l11 db_fftSize_pos show ?thesis
    by (simp add: barHeightOf_def)
qed

section \<open>Properties of the scale generator\<close>

lemma stopIndex_le: "hi < freqAt i \<Longrightarrow> stopIndex hi \<le> i"
  unfolding stopIndex_def by (rule Least_le)

lemma scaleLoop_kept:
  "groupNotes \<noteq> 0 \<Longrightarrow>
   scaleLoop groupNotes lo hi i ts = Inr (ts @ map freqAt (keptSteps groupNotes lo hi i))"
proof (induction groupNotes lo hi i ts rule: scaleLoop.induct)
  case (1 groupNotes lo hi i ts)
  show ?case
  proof (cases "freqAt i \<le> hi")
    case False
    then have "stopIndex hi \<le> i"
      by (simp add: stopIndex_le)
    with False show ?thesis
      by (simp add: scaleLoop.simps [of groupNotes lo hi i ts] keptSteps_def)
  next
    case True
    then have "i < stopIndex hi"
      by (rule below_stopIndex)
    then have upt: "[i..<stopIndex hi] = i # [i + 1..<stopIndex hi]"
      by (simp add: upt_conv_Cons)
    show ?thesis
    proof (cases "lo \<le> freqAt i")
      case False
      with True "1.IH"(3) "1.prems" show ?thesis
        by (simp add: scaleLoop.simps [of groupNotes lo hi i ts] keptSteps_def upt)
    next
      case lo: True
      show ?thesis
      proof (cases "int i smod groupNotes = 0")
        case True
        with \<open>freqAt i \<le> hi\<close> lo "1.IH"(1) "1.prems" show ?thesis
          by (simp add: scaleLoop.simps [of groupNotes lo hi i ts] keptSteps_def upt)
      next
        case False
        with \<open>freqAt i \<le> hi\<close> lo "1.IH"(2) "1.prems" show ?thesis
          by (simp add: scaleLoop.simps [of groupNotes lo hi i ts] keptSteps_def upt)
      qed
    qed
  qed
qed

lemma keptSteps_sorted: "sorted_wrt (<) (keptSteps g lo hi i)"
  unfolding keptSteps_def by (rule sorted_wrt_filter) simp

lemma kept_freqs_sorted: "sorted_wrt (<) (map freqAt (keptSteps g lo hi i))"
  unfolding sorted_wrt_map
  by (rule sorted_wrt_mono_rel [OF _ keptSteps_sorted]) (simp add: freqAt_strict_mono)


lemma kept_freqs_range: "f \<in> set (map freqAt (keptSteps g lo hi i)) \<Longrightarrow> lo \<le> f \<and> f \<le> hi"
proof -
  assume "f \<in> set (map freqAt (keptSteps g lo hi i))"
  then obtain j where j: "f = freqAt j" "lo \<le> freqAt j" "j < stopIndex hi"
    by (auto simp: keptSteps_def)
  have "freqAt j \<le> hi"
  proof (rule ccontr)
    assume "\<not> freqAt j \<le> hi"
    then have "stopIndex hi \<le> j" by (simp add: stopIndex_le)
    with j(3) show False by simp
  qed
  with j show ?thesis by simp
qed

lemma kept_member:
  "i \<le> j \<Longrightarrow> lo \<le> freqAt j \<Longrightarrow> freqAt j \<le> hi \<Longrightarrow> int j smod g = 0 \<Longrightarrow>
   j \<in> set (keptSteps g lo hi i)"
  by (simp add: keptSteps_def below_stopIndex)

text \<open>
  The frequencies kept from step 0 on are those of the steps that are multiples of the
  stride and lie in the range.
\<close>

lemma kept_freqs_set:
  "set (map freqAt (keptSteps g lo hi 0))
     = {freqAt j | j. lo \<le> freqAt j \<and> freqAt j \<le> hi \<and> int j smod g = 0}"
proof (intro equalityI subsetI)
  fix f assume m: "f \<in> set (map freqAt (keptSteps g lo hi 0))"
  then obtain j where j: "f = freqAt j" "int j smod g = 0"
    by (auto simp: keptSteps_def)
  from kept_freqs_range [OF m] j
  show "f \<in> {freqAt j | j. lo \<le> freqAt j \<and> freqAt j \<le> hi \<and> int j smod g = 0}"
    by auto
next
  fix f assume "f \<in> {freqAt j | j. lo \<le> freqAt j \<and> freqAt j \<le> hi \<and> int j smod g = 0}"
  then obtain j where j: "f = freqAt j" "lo \<le> freqAt j" "freqAt j \<le> hi" "int j smod g = 0"
    by auto
  from kept_member [OF _ j(2,3,4), of 0] have "j \<in> set (keptSteps g lo hi 0)"
    by simp
  with j(1) show "f \<in> set (map freqAt (keptSteps g lo hi 0))"
    by auto
qed

text \<open>The scale of the default range and stride has the entry 440 Hz, step 114.\<close>

lemma smod_2_even: "even j \<Longrightarrow> int j smod 2 = 0"
  by (auto simp: signed_modulo_int_def elim!: evenE)

lemma step114_kept: "114 \<in> set (keptSteps 2 20 22000 0)"
  by (rule kept_member) (simp_all add: freqAt_114 smod_2_even)

lemma default_scale_nonempty: "map freqAt (keptSteps 2 20 22000 0) \<noteq> []"
  using step114_kept by auto

section \<open>Properties of the bins\<close>

lemma round_c_mono: "x \<le> y \<Longrightarrow> round_c x \<le> round_c y"
  unfolding round_c_def
  by (auto intro!: floor_mono simp: le_floor_iff floor_le_iff) linarith+

lemma round_c_nonneg: "0 \<le> x \<Longrightarrow> 0 \<le> round_c x"
  by (simp add: round_c_def)


lemma round_c_half: "1 < d \<Longrightarrow> 0 < round_c (real_of_int d / 2) \<and> round_c (real_of_int d / 2) \<le> d"
  unfolding round_c_def by (auto simp: floor_le_iff)

text \<open>Bins of non-negative frequencies at a sample rate that is \<open>+0.0\<close> or positive.\<close>

lemma freqToBin_range:
  assumes "0 \<le> sr" and "0 \<le> f"
  shows "\<exists>b. freqToBin (Finite sr) f = Some b \<and> 0 \<le> b \<and> b \<le> int fftSize - 1"
proof (cases "sr = 0")
  case True
  with assms fftSize_pos show ?thesis
    by (simp add: freqToBin_def)
next
  case False
  with assms have "0 \<le> f * real fftSize / sr"
    by simp
  then have "0 \<le> round_c (f * real fftSize / sr)"
    by (rule round_c_nonneg)
  with False fftSize_pos show ?thesis
    by (auto simp: freqToBin_def Let_def fftSize_eq)
qed

lemma freqToBin_mono:
  assumes "0 \<le> sr" and "0 \<le> f" and "f \<le> f'"
  shows "the (freqToBin (Finite sr) f) \<le> the (freqToBin (Finite sr) f')"
proof (cases "sr = 0")
  case True
  with assms show ?thesis
    by (simp add: freqToBin_def)
next
  case False
  with assms have q: "0 \<le> f * real fftSize / sr" "f * real fftSize / sr \<le> f' * real fftSize / sr"
    by (simp_all add: divide_right_mono mult_right_mono)
  then have "0 \<le> round_c (f * real fftSize / sr)"
    "round_c (f * real fftSize / sr) \<le> round_c (f' * real fftSize / sr)"
    by (simp_all add: round_c_nonneg round_c_mono)
  with False show ?thesis
    by (auto simp: freqToBin_def Let_def fftSize_eq)
qed


section \<open>Properties of the bar loop\<close>

subsection \<open>The factor loop keeps everything but the factors\<close>

lemma setFactors_step_length:
  "length (acc[k := (acc ! k)\<lparr>factor := x\<rparr>]) = length acc"
  by simp

lemma setFactors_step_map:
  assumes "\<And>b x. g (b\<lparr>factor := x\<rparr>) = g b"
  shows "map g (acc[k := (acc ! k)\<lparr>factor := x\<rparr>]) = map g acc"
proof (cases "k < length acc")
  case True
  then show ?thesis
    by (simp add: map_update assms list_update_same_conv)
next
  case False
  then have "length acc \<le> k" by simp
  then have "acc[k := (acc ! k)\<lparr>factor := x\<rparr>] = acc"
    by (rule list_update_beyond)
  then show ?thesis by (simp only:)
qed

lemma setFactors_fold_inv:
  assumes "\<And>b x. g (b\<lparr>factor := x\<rparr>) = g b"
  shows "length (foldl (\<lambda>acc iFactor.
              acc[length acc - n + iFactor :=
                    (acc ! (length acc - n + iFactor))\<lparr>factor := (real iFactor + 1) / real n\<rparr>])
           bs js) = length bs
       \<and> map g (foldl (\<lambda>acc iFactor.
              acc[length acc - n + iFactor :=
                    (acc ! (length acc - n + iFactor))\<lparr>factor := (real iFactor + 1) / real n\<rparr>])
           bs js) = map g bs"
proof (induction js arbitrary: bs)
  case Nil
  then show ?case by simp
next
  case (Cons j js)
  show ?case
    unfolding foldl_Cons
    by (simp only: Cons.IH setFactors_step_length setFactors_step_map [of g, OF assms])
qed

lemma length_setFactors: "length (setFactors n bs) = length bs"
  unfolding setFactors_def using setFactors_fold_inv [of posX n bs "[0..<n]"] by simp

lemma map_posX_setFactors: "map posX (setFactors n bs) = map posX bs"
  unfolding setFactors_def using setFactors_fold_inv [of posX n bs "[0..<n]"] by simp

lemma map_dataIdx_setFactors: "map dataIdx (setFactors n bs) = map dataIdx bs"
  unfolding setFactors_def using setFactors_fold_inv [of dataIdx n bs "[0..<n]"] by simp

lemma map_endIdx_setFactors: "map endIdx (setFactors n bs) = map endIdx bs"
  unfolding setFactors_def using setFactors_fold_inv [of endIdx n bs "[0..<n]"] by simp

subsection \<open>The loop invariant\<close>

lemma barStep_eq:
  fixes w :: Walk and bin nextBin :: int
  assumes b: "freqToBin sr (ts ! n) = Some bin"
    and nb: "Suc n < length ts \<Longrightarrow> freqToBin sr (ts ! Suc n) = Some nextBin"
  defines "idx \<equiv> (if prevBin w > 0 \<and> prevBin w + 1 \<le> bin then prevBin w + 1 else bin)"
    and "pb \<equiv> (if Suc n < length ts \<and> nextBin - bin > 1
                 then bin + round_c (real_of_int (nextBin - bin) / 2) else bin)"
  shows "barStep sr ts n w =
           Inr \<lparr>prevBin = pb,
                prevIdx = idx,
                nBars = (if idx = prevIdx w then nBars w + 1 else 1),
                bars = (if idx \<noteq> prevIdx w \<and> nBars w > 1 then setFactors (nBars w) (bars w)
                        else bars w) @
                  [\<lparr>posX = int n, dataIdx = idx,
                    endIdx = (if pb - idx > 0 then pb else 0), factor = 0\<rparr>]\<rparr>"
proof (cases "Suc n < length ts")
  case True
  with nb have "freqToBin sr (ts ! Suc n) = Some nextBin" by simp
  with b True show ?thesis
    unfolding barStep_def idx_def pb_def by (cases w) (simp add: Let_def)
next
  case False
  with b show ?thesis
    unfolding barStep_def idx_def pb_def by (cases w) (simp add: Let_def)
qed

lemma barStep_inv:
  assumes d: "binsDefined sr ts" and n: "n < length ts" and inv: "loopInv sr ts bs0 n w"
  shows "\<exists>w'. barStep sr ts n w = Inr w' \<and> loopInv sr ts bs0 (Suc n) w'"
proof -
  from d n obtain bin where b: "freqToBin sr (ts ! n) = Some bin"
    by (auto simp: binsDefined_def)
  then have bin: "bin = binAt sr ts n"
    by (simp add: binAt_def)
  have "\<exists>nextBin. Suc n < length ts \<longrightarrow> freqToBin sr (ts ! Suc n) = Some nextBin"
    using d by (auto simp: binsDefined_def)
  then obtain nextBin where nb: "Suc n < length ts \<Longrightarrow> freqToBin sr (ts ! Suc n) = Some nextBin"
    by blast
  then have nextBin: "Suc n < length ts \<Longrightarrow> nextBin = binAt sr ts (Suc n)"
    by (simp add: binAt_def)
  from inv have pbw: "prevBin w = prevBinBefore sr ts n"
    and len: "length (bars w) = length bs0 + n"
    and px: "map posX (bars w) = map posX bs0 @ map int [0..<n]"
    and di: "map dataIdx (bars w) = map dataIdx bs0 @ map (startIdx sr ts) [0..<n]"
    and ei: "map endIdx (bars w) = map endIdx bs0 @ map (endOf sr ts) [0..<n]"
    and nle: "nBars w \<le> n"
    and pos: "0 < n \<Longrightarrow> 0 < nBars w \<and> prevIdx w = startIdx sr ts (n - 1)"
    and fz: "\<And>k. k < nBars w \<Longrightarrow> factor (bars w ! (length (bars w) - 1 - k)) = 0"
    unfolding loopInv_def by blast+
  define idx where "idx = (if prevBin w > 0 \<and> prevBin w + 1 \<le> bin then prevBin w + 1 else bin)"
  define pb where "pb = (if Suc n < length ts \<and> nextBin - bin > 1
                 then bin + round_c (real_of_int (nextBin - bin) / 2) else bin)"
  define X where "X = (if idx \<noteq> prevIdx w \<and> nBars w > 1 then setFactors (nBars w) (bars w)
                        else bars w)"
  define bar where "bar = \<lparr>posX = int n, dataIdx = idx,
                    endIdx = (if pb - idx > 0 then pb else 0), factor = 0\<rparr>"
  define w' where "w' = \<lparr>prevBin = pb, prevIdx = idx,
                nBars = (if idx = prevIdx w then nBars w + 1 else 1), bars = X @ [bar]\<rparr>"
  have step: "barStep sr ts n w = Inr w'"
    unfolding w'_def X_def bar_def idx_def pb_def
    by (rule barStep_eq [OF b nb])
  have idx: "idx = startIdx sr ts n"
    by (simp add: idx_def startIdx_def pbw bin)
  have pb: "pb = prevBinAfter sr ts n"
    using nextBin by (auto simp: pb_def prevBinAfter_def bin)
  have lenX: "length X = length (bars w)"
    by (simp add: X_def length_setFactors)
  have pxX: "map posX X = map posX (bars w)"
    by (simp add: X_def map_posX_setFactors)
  have diX: "map dataIdx X = map dataIdx (bars w)"
    by (simp add: X_def map_dataIdx_setFactors)
  have eiX: "map endIdx X = map endIdx (bars w)"
    by (simp add: X_def map_endIdx_setFactors)
  have i1: "prevBin w' = prevBinBefore sr ts (Suc n)"
    by (simp add: w'_def pb prevBinBefore_def)
  have i2: "length (bars w') = length bs0 + Suc n"
    by (simp add: w'_def lenX len)
  have i3: "map posX (bars w') = map posX bs0 @ map int [0..<Suc n]"
    by (simp add: w'_def pxX px bar_def)
  have i4: "map dataIdx (bars w') = map dataIdx bs0 @ map (startIdx sr ts) [0..<Suc n]"
    by (simp add: w'_def diX di bar_def idx)
  have i5: "map endIdx (bars w') = map endIdx bs0 @ map (endOf sr ts) [0..<Suc n]"
    by (simp add: w'_def eiX ei bar_def endOf_def idx pb)
  have i6: "nBars w' \<le> Suc n"
    using nle by (simp add: w'_def)
  have i7: "0 < nBars w' \<and> prevIdx w' = startIdx sr ts (Suc n - 1)"
    by (simp add: w'_def idx)
  have i9: "1 < nBars w'" if r: "1 < Suc n \<and> startIdx sr ts (Suc n - 1) = startIdx sr ts (Suc n - 2)"
  proof -
    from r have "0 < n" and "startIdx sr ts n = startIdx sr ts (n - 1)"
      by (simp_all add: numeral_2_eq_2)
    with pos have "0 < nBars w" and "idx = prevIdx w"
      by (simp_all add: idx)
    then show ?thesis
      by (simp add: w'_def)
  qed
  have i8: "factor (bars w' ! (length (bars w') - 1 - k)) = 0" if k: "k < nBars w'" for k
  proof (cases k)
    case 0
    then show ?thesis
      by (simp add: w'_def bar_def)
  next
    case (Suc j)
    with k have same: "idx = prevIdx w" and j: "j < nBars w"
      by (auto simp: w'_def split: if_splits)
    from same have X: "X = bars w"
      by (simp add: X_def)
    from j nle len have jl: "j < length (bars w)"
      by simp
    then have "(bars w @ [bar]) ! (length (bars w) - Suc j) = bars w ! (length (bars w) - 1 - j)"
      by (simp add: nth_append)
    with fz [OF j] show ?thesis
      by (simp add: w'_def X Suc)
  qed
  have "loopInv sr ts bs0 (Suc n) w'"
    unfolding loopInv_def using i1 i2 i3 i4 i5 i6 i7 i8 i9 by blast
  with step show ?thesis by blast
qed

lemma loopInv_0: "loopInv sr ts bs0 0 \<lparr>prevBin = 0, prevIdx = 0, nBars = 0, bars = bs0\<rparr>"
  by (simp add: loopInv_def prevBinBefore_def)

lemma barLoop_inv:
  assumes "binsDefined sr ts" and "n \<le> length ts"
  shows "\<exists>w. barLoop sr ts n \<lparr>prevBin = 0, prevIdx = 0, nBars = 0, bars = bs0\<rparr> = Inr w
           \<and> loopInv sr ts bs0 n w"
  using assms(2)
proof (induction n)
  case 0
  show ?case by (simp add: loopInv_0)
next
  case (Suc n)
  then obtain w where w: "barLoop sr ts n \<lparr>prevBin = 0, prevIdx = 0, nBars = 0, bars = bs0\<rparr> = Inr w"
    and inv: "loopInv sr ts bs0 n w"
    by auto
  from Suc.prems have "n < length ts" by simp
  from barStep_inv [OF assms(1) this inv] w show ?case
    by simp
qed

subsection \<open>The whole build\<close>

lemma barLoop_Inr_prefix:
  "barLoop sr ts (Suc n) w0 = Inr w \<Longrightarrow> \<exists>w'. barLoop sr ts n w0 = Inr w' \<and> barStep sr ts n w' = Inr w"
  by (cases "barLoop sr ts n w0") simp_all

lemma barStep_Inr_defined: "barStep sr ts n w = Inr w' \<Longrightarrow> freqToBin sr (ts ! n) \<noteq> None"
  by (cases "freqToBin sr (ts ! n)") (simp_all add: barStep_def)

lemma barLoop_defined:
  "barLoop sr ts n w0 = Inr w \<Longrightarrow> k < n \<Longrightarrow> freqToBin sr (ts ! k) \<noteq> None"
proof (induction n arbitrary: w)
  case 0
  then show ?case by simp
next
  case (Suc n)
  from barLoop_Inr_prefix [OF Suc.prems(1)] obtain w'
    where p: "barLoop sr ts n w0 = Inr w'" and st: "barStep sr ts n w' = Inr w"
    by blast
  show ?case
  proof (cases "k = n")
    case True
    with st show ?thesis by (simp add: barStep_Inr_defined)
  next
    case False
    with Suc.prems(2) have "k < n" by simp
    with Suc.IH [OF p] show ?thesis by simp
  qed
qed

lemma build_cases:
  assumes "buildTemperedScale g s = Inr s'"
  shows "\<exists>ts w. scaleLoop g (minFreq s) (maxFreq s) 0 (temperedScale s) = Inr ts
           \<and> barLoop (sampleRate s) ts (length ts) \<lparr>prevBin = 0, prevIdx = 0, nBars = 0, bars = allBars s\<rparr> = Inr w
           \<and> s' = s\<lparr>temperedScale := ts, allBars := bars w\<rparr>"
  using assms unfolding buildTemperedScale_def
  by (auto split: sum.splits)

lemma build_inv:
  assumes "buildTemperedScale g s = Inr s'"
  shows "\<exists>w. barLoop (sampleRate s) (temperedScale s') (length (temperedScale s')) \<lparr>prevBin = 0, prevIdx = 0, nBars = 0, bars = allBars s\<rparr> = Inr w
           \<and> loopInv (sampleRate s) (temperedScale s') (allBars s) (length (temperedScale s')) w
           \<and> allBars s' = bars w
           \<and> binsDefined (sampleRate s) (temperedScale s')"
proof -
  from build_cases [OF assms] obtain ts w
    where bl: "barLoop (sampleRate s) ts (length ts) \<lparr>prevBin = 0, prevIdx = 0, nBars = 0, bars = allBars s\<rparr> = Inr w"
      and s': "s' = s\<lparr>temperedScale := ts, allBars := bars w\<rparr>"
    by blast
  have d: "binsDefined (sampleRate s) ts"
    unfolding binsDefined_def using barLoop_defined [OF bl] by blast
  from barLoop_inv [OF d order_refl, of "allBars s"] bl
  have "loopInv (sampleRate s) ts (allBars s) (length ts) w"
    by simp
  with bl d s' show ?thesis by simp
qed

lemma build_total:
  assumes "g \<noteq> 0"
    and "binsDefined (sampleRate s) (temperedScale s @ map freqAt (keptSteps g (minFreq s) (maxFreq s) 0))"
  shows "\<exists>s'. buildTemperedScale g s = Inr s'
           \<and> temperedScale s' = temperedScale s @ map freqAt (keptSteps g (minFreq s) (maxFreq s) 0)
           \<and> sampleRate s' = sampleRate s \<and> fftData s' = fftData s"
proof -
  let ?ts = "temperedScale s @ map freqAt (keptSteps g (minFreq s) (maxFreq s) 0)"
  from barLoop_inv [OF assms(2) order_refl, of "allBars s"] obtain w
    where "barLoop (sampleRate s) ?ts (length ?ts) \<lparr>prevBin = 0, prevIdx = 0, nBars = 0, bars = allBars s\<rparr> = Inr w"
    by blast
  then show ?thesis
    unfolding buildTemperedScale_def scaleLoop_kept [OF assms(1)]
    by simp
qed

lemma build_frame:
  assumes "buildTemperedScale g s = Inr s'"
  shows "sampleRate s' = sampleRate s \<and> minFreq s' = minFreq s \<and> maxFreq s' = maxFreq s
       \<and> fftData s' = fftData s \<and> fifo s' = fifo s \<and> fifoIndex s' = fifoIndex s
       \<and> nextFFTBlockReady s' = nextFFTBlockReady s"
  using build_cases [OF assms] by auto

text \<open>
  A build that returns has appended the kept frequencies to the scale, and one bar for
  every entry of the whole scale, old and new, to the table.
\<close>

lemma build_lengths:
  assumes "buildTemperedScale g s = Inr s'"
  shows "length (allBars s') = length (allBars s) + length (temperedScale s')"
proof -
  from build_inv [OF assms] obtain w
    where "loopInv (sampleRate s) (temperedScale s') (allBars s) (length (temperedScale s')) w"
      and "allBars s' = bars w"
    by blast
  then show ?thesis
    by (simp add: loopInv_def)
qed

lemma binsDefined_nonneg:
  assumes "0 \<le> sr" and "\<And>f. f \<in> set ts \<Longrightarrow> 0 \<le> f"
  shows "binsDefined (Finite sr) ts"
  unfolding binsDefined_def
proof (intro allI impI)
  fix k assume "k < length ts"
  then have "0 \<le> ts ! k" by (simp add: assms(2))
  from freqToBin_range [OF assms(1) this] show "freqToBin (Finite sr) (ts ! k) \<noteq> None"
    by auto
qed

lemma binsDefined_kept: "0 \<le> sr \<Longrightarrow> binsDefined (Finite sr) (map freqAt (keptSteps g lo hi i))"
  by (rule binsDefined_nonneg) (auto simp: freqAt_pos less_imp_le)

subsection \<open>Arithmetic of the closed forms\<close>

lemma startIdx_le_bin: "startIdx sr ts k \<le> binAt sr ts k"
  by (simp add: startIdx_def)

lemma bin_le_prevBinAfter: "binAt sr ts k \<le> prevBinAfter sr ts k"
  using round_c_half [of "binAt sr ts (k + 1) - binAt sr ts k"]
  by (auto simp: prevBinAfter_def)

lemma prevBinAfter_le:
  "prevBinAfter sr ts k \<le> binAt sr ts k
   \<or> (k + 1 < length ts \<and> prevBinAfter sr ts k \<le> binAt sr ts (k + 1))"
  using round_c_half [of "binAt sr ts (k + 1) - binAt sr ts k"]
  by (auto simp: prevBinAfter_def)

lemma startIdx_Suc_mono:
  assumes "binAt sr ts k \<le> binAt sr ts (Suc k)"
  shows "startIdx sr ts k \<le> startIdx sr ts (Suc k)"
proof -
  have a: "startIdx sr ts k \<le> binAt sr ts k"
    by (rule startIdx_le_bin)
  have b: "binAt sr ts k \<le> prevBinAfter sr ts k"
    by (rule bin_le_prevBinAfter)
  show ?thesis
    using a b assms by (simp add: startIdx_def [of sr ts "Suc k"] prevBinBefore_def)
qed

lemma binAt_range:
  assumes "0 \<le> sr" and "0 \<le> ts ! k"
  shows "0 \<le> binAt (Finite sr) ts k \<and> binAt (Finite sr) ts k \<le> int fftSize - 1"
  using freqToBin_range [OF assms] by (auto simp: binAt_def)

lemma binAt_mono:
  assumes "0 \<le> sr" and "0 \<le> ts ! k" and "ts ! k \<le> ts ! Suc k"
  shows "binAt (Finite sr) ts k \<le> binAt (Finite sr) ts (Suc k)"
  unfolding binAt_def using assms by (rule freqToBin_mono)

lemma startIdx_range:
  assumes "0 \<le> binAt sr ts k"
  shows "0 \<le> startIdx sr ts k"
  using assms by (simp add: startIdx_def)

lemma endOf_range:
  assumes "0 \<le> binAt sr ts k \<and> binAt sr ts k \<le> m"
    and "k + 1 < length ts \<Longrightarrow> binAt sr ts (k + 1) \<le> m"
  shows "0 \<le> endOf sr ts k \<and> endOf sr ts k \<le> m"
  using assms bin_le_prevBinAfter [of sr ts k] prevBinAfter_le [of sr ts k]
  by (auto simp: endOf_def)

lemma sorted_map_upt:
  assumes "\<And>k. Suc k < n \<Longrightarrow> f k \<le> (f (Suc k) :: int)"
  shows "sorted (map f [0..<n])"
  unfolding sorted_iff_nth_Suc using assms by simp

section \<open>The table of a fresh build\<close>

lemma build_fresh:
  assumes sr: "sampleRate s = Finite r" and r: "0 \<le> r"
    and g: "g \<noteq> 0" and e: "temperedScale s = []"
  shows "\<exists>s' w. buildTemperedScale g s = Inr s'
           \<and> temperedScale s' = map freqAt (keptSteps g (minFreq s) (maxFreq s) 0)
           \<and> allBars s' = bars w
           \<and> loopInv (sampleRate s) (temperedScale s') (allBars s) (length (temperedScale s')) w
           \<and> fftData s' = fftData s"
proof -
  have "binsDefined (sampleRate s) (temperedScale s @ map freqAt (keptSteps g (minFreq s) (maxFreq s) 0))"
    using binsDefined_kept [OF r] e sr by simp
  from build_total [OF g this] obtain s' where s': "buildTemperedScale g s = Inr s'"
    "temperedScale s' = map freqAt (keptSteps g (minFreq s) (maxFreq s) 0)" "fftData s' = fftData s"
    using e by auto
  from build_inv [OF s'(1)] s' show ?thesis
    by blast
qed

lemma kept_nth_pos: "k < length (keptSteps g lo hi i) \<Longrightarrow> 0 \<le> map freqAt (keptSteps g lo hi i) ! k"
  by (simp add: freqAt_pos less_imp_le)

lemma kept_nth_mono:
  assumes "Suc k < length (keptSteps g lo hi i)"
  shows "map freqAt (keptSteps g lo hi i) ! k \<le> map freqAt (keptSteps g lo hi i) ! Suc k"
proof -
  have "map freqAt (keptSteps g lo hi i) ! k < map freqAt (keptSteps g lo hi i) ! Suc k"
    using sorted_wrt_nth_less [OF kept_freqs_sorted [of g lo hi i], of k "Suc k"] assms
    by simp
  then show ?thesis by simp
qed

text \<open>
  C8. A valid configuration is a positive sample rate and a nonzero group stride, on a
  component whose two vectors are empty, as the constructor finds them. The build
  then returns. Its scale is, in strictly increasing order, the frequencies
  \<open>c0 * root24 ^ j\<close> of the steps \<open>j\<close> that are multiples of the stride and lie
  between \<open>minFreq\<close> and \<open>maxFreq\<close>. The table has one bar per scale entry; the
  positions of the bars are \<open>0, 1, \<dots>, n - 1\<close> in order; the primary bin of bar
  \<open>k\<close> is the starting bin that the loop computes for entry \<open>k\<close>; and the primary
  bins are non-decreasing.
\<close>

theorem positions_and_bins_ordered:
  assumes "sampleRate s = Finite r" and "0 < r" and "groupNotes \<noteq> 0"
    and "temperedScale s = []" and "allBars s = []"
  shows "\<exists>s'. buildTemperedScale groupNotes s = Inr s'
           \<and> temperedScale s' = map freqAt (keptSteps groupNotes (minFreq s) (maxFreq s) 0)
           \<and> sorted_wrt (<) (temperedScale s')
           \<and> set (temperedScale s')
               = {freqAt j | j. minFreq s \<le> freqAt j \<and> freqAt j \<le> maxFreq s
                                \<and> int j smod groupNotes = 0}
           \<and> length (allBars s') = length (temperedScale s')
           \<and> map posX (allBars s') = map int [0..<length (temperedScale s')]
           \<and> map dataIdx (allBars s')
               = map (startIdx (Finite r) (temperedScale s')) [0..<length (temperedScale s')]
           \<and> sorted (map dataIdx (allBars s'))"
proof -
  from assms(2) have r: "0 \<le> r" by simp
  from build_fresh [OF assms(1) r assms(3,4)] obtain s' w
    where b: "buildTemperedScale groupNotes s = Inr s'"
      and ts: "temperedScale s' = map freqAt (keptSteps groupNotes (minFreq s) (maxFreq s) 0)"
      and bars: "allBars s' = bars w"
      and inv: "loopInv (Finite r) (temperedScale s') (allBars s) (length (temperedScale s')) w"
    unfolding assms(1) by blast
  let ?ts = "temperedScale s'"
  let ?n = "length ?ts"
  have so: "sorted_wrt (<) ?ts"
    unfolding ts by (rule kept_freqs_sorted)
  have se: "set ?ts = {freqAt j | j. minFreq s \<le> freqAt j \<and> freqAt j \<le> maxFreq s
                                   \<and> int j smod groupNotes = 0}"
    unfolding ts by (rule kept_freqs_set)
  from inv assms(5) have len: "length (allBars s') = ?n"
    and px: "map posX (allBars s') = map int [0..<?n]"
    and di: "map dataIdx (allBars s') = map (startIdx (Finite r) ?ts) [0..<?n]"
    unfolding loopInv_def bars by simp_all
  have "startIdx (Finite r) ?ts k \<le> startIdx (Finite r) ?ts (Suc k)" if k: "Suc k < ?n" for k
  proof (rule startIdx_Suc_mono, rule binAt_mono [OF r])
    from k show "0 \<le> ?ts ! k"
      unfolding ts by (intro kept_nth_pos) simp
    from k show "?ts ! k \<le> ?ts ! Suc k"
      unfolding ts by (intro kept_nth_mono) simp
  qed
  then have "sorted (map (startIdx (Finite r) ?ts) [0..<?n])"
    by (rule sorted_map_upt)
  then have sd: "sorted (map dataIdx (allBars s'))"
    by (simp only: di)
  from b ts so se len px di sd show ?thesis
    by blast
qed

text \<open>
  At the constructor's configuration with 44.1 kHz the table is not empty: the scale
  has the entry 440 Hz.
\<close>

theorem positions_and_bins_ordered_witness:
  "sampleRate (fresh (Finite 44100)) = Finite 44100 \<and> (0::real) < 44100 \<and> (2::int) \<noteq> 0
   \<and> temperedScale (fresh (Finite 44100)) = [] \<and> allBars (fresh (Finite 44100)) = []
   \<and> (\<exists>s'. buildTemperedScale 2 (fresh (Finite 44100)) = Inr s'
           \<and> temperedScale s' = map freqAt (keptSteps 2 20 22000 0)
           \<and> sorted_wrt (<) (temperedScale s')
           \<and> set (temperedScale s')
               = {freqAt j | j. 20 \<le> freqAt j \<and> freqAt j \<le> 22000 \<and> int j smod 2 = 0}
           \<and> 440 \<in> set (temperedScale s')
           \<and> allBars s' \<noteq> []
           \<and> length (allBars s') = length (temperedScale s')
           \<and> map posX (allBars s') = map int [0..<length (temperedScale s')]
           \<and> map dataIdx (allBars s')
               = map (startIdx (Finite 44100) (temperedScale s')) [0..<length (temperedScale s')]
           \<and> sorted (map dataIdx (allBars s')))"
proof -
  have h: "sampleRate (fresh (Finite 44100)) = Finite 44100" "(0::real) < 44100" "(2::int) \<noteq> 0"
    "temperedScale (fresh (Finite 44100)) = []" "allBars (fresh (Finite 44100)) = []"
    by (simp_all add: fresh_def)
  have f: "minFreq (fresh (Finite 44100)) = 20" "maxFreq (fresh (Finite 44100)) = 22000"
    by (simp_all add: fresh_def)
  from positions_and_bins_ordered [OF h] obtain s'
    where s': "buildTemperedScale 2 (fresh (Finite 44100)) = Inr s'"
      "temperedScale s' = map freqAt (keptSteps 2 20 22000 0)"
      "sorted_wrt (<) (temperedScale s')"
      "set (temperedScale s')
         = {freqAt j | j. 20 \<le> freqAt j \<and> freqAt j \<le> 22000 \<and> int j smod 2 = 0}"
      "length (allBars s') = length (temperedScale s')"
      "map posX (allBars s') = map int [0..<length (temperedScale s')]"
      "map dataIdx (allBars s')
         = map (startIdx (Finite 44100) (temperedScale s')) [0..<length (temperedScale s')]"
      "sorted (map dataIdx (allBars s'))"
    unfolding f by blast
  from step114_kept have "freqAt 114 \<in> set (map freqAt (keptSteps 2 20 22000 0))"
    by auto
  then have m: "440 \<in> set (temperedScale s')"
    by (simp add: s'(2) freqAt_114)
  then have "temperedScale s' \<noteq> []"
    by auto
  with s'(5) have "allBars s' \<noteq> []"
    by auto
  with h s' m show ?thesis
    by blast
qed

section \<open>Reads of the spectrum buffer\<close>

lemma getLevel_ok: "0 \<le> i \<Longrightarrow> i < int (length fd) \<Longrightarrow> \<exists>y. getLevel fd i h = Inr y"
  by (simp add: getLevel_def Let_def nat_less_iff)

lemma peakLoop_ok:
  "0 \<le> j \<Longrightarrow> e < int (length fd) \<Longrightarrow> \<exists>y. peakLoop fd h j e b = Inr y"
proof (induction fd h j e b rule: peakLoop.induct)
  case (1 fd height j e barHeight)
  show ?case
  proof (cases "j \<le> e")
    case False
    then show ?thesis by (simp add: peakLoop.simps [of fd height j e barHeight])
  next
    case True
    with "1.prems" have inb: "0 \<le> j \<and> nat j < length fd"
      by (simp add: nat_less_iff)
    show ?thesis
    proof (cases "fd ! nat j > barHeight")
      case False
      from "1.IH"(2) [OF True inb False] "1.prems" True inb False show ?thesis
        by (simp add: peakLoop.simps [of fd height j e barHeight])
    next
      case gt: True
      from "1.prems" True obtain level where l: "getLevel fd j height = Inr level"
        using getLevel_ok [of j fd height] by auto
      from "1.IH"(1) [OF True inb gt l] "1.prems" True inb gt l show ?thesis
        by (simp add: peakLoop.simps [of fd height j e barHeight])
    qed
  qed
qed

lemma barHeightOf_ok:
  assumes "0 \<le> dataIdx b" and "dataIdx b < int (length fd)" and "endIdx b < int (length fd)"
  shows "\<exists>y. barHeightOf fd h b = Inr y"
proof (cases "endIdx b = 0")
  case False
  with peakLoop_ok [OF assms(1,3)] show ?thesis
    by (simp add: barHeightOf_def)
next
  case True
  from getLevel_ok [OF assms(1,2)] obtain level where l: "getLevel fd (dataIdx b) h = Inr level"
    by blast
  show ?thesis
  proof (cases "dataIdx b > 0")
    case False
    with True l show ?thesis
      by (simp add: barHeightOf_def)
  next
    case pos: True
    with assms(2) have "0 \<le> dataIdx b - 1" "dataIdx b - 1 < int (length fd)"
      by simp_all
    from getLevel_ok [OF this] obtain p where "getLevel fd (dataIdx b - 1) h = Inr p"
      by blast
    with True l pos show ?thesis
      by (simp add: barHeightOf_def)
  qed
qed

lemma drawBars_ok:
  assumes "\<And>b. b \<in> set bs \<Longrightarrow> 0 \<le> dataIdx b \<and> dataIdx b < int (length fd) \<and> endIdx b < int (length fd)"
  shows "\<exists>ys. drawBars fd h bs = Inr ys"
  using assms
proof (induction bs)
  case Nil
  show ?case by simp
next
  case (Cons b bs)
  from Cons.prems [of b] obtain y where y: "barHeightOf fd h b = Inr y"
    using barHeightOf_ok [of b fd h] by auto
  from Cons.IH Cons.prems obtain ys where "drawBars fd h bs = Inr ys"
    by auto
  with y show ?case by simp
qed

text \<open>A bar whose starting bin is negative makes \<open>drawFrame\<close> read before the array.\<close>

lemma barHeightOf_negative:
  assumes "dataIdx b < 0" and "endIdx b = 0 \<or> dataIdx b \<le> endIdx b"
  shows "barHeightOf fd h b = Inl OutOfBounds"
  using assms
  by (auto simp: barHeightOf_def getLevel_def peakLoop.simps [of fd h "dataIdx b" "endIdx b" 0])

lemma build_fresh_defined:
  assumes g: "g \<noteq> 0" and e: "temperedScale s = []"
    and d: "binsDefined (sampleRate s) (map freqAt (keptSteps g (minFreq s) (maxFreq s) 0))"
  shows "\<exists>s' w. buildTemperedScale g s = Inr s'
           \<and> temperedScale s' = map freqAt (keptSteps g (minFreq s) (maxFreq s) 0)
           \<and> allBars s' = bars w
           \<and> loopInv (sampleRate s) (temperedScale s') (allBars s) (length (temperedScale s')) w
           \<and> fftData s' = fftData s"
proof -
  have "binsDefined (sampleRate s) (temperedScale s @ map freqAt (keptSteps g (minFreq s) (maxFreq s) 0))"
    using d e by simp
  from build_total [OF g this] obtain s' where s': "buildTemperedScale g s = Inr s'"
    "temperedScale s' = map freqAt (keptSteps g (minFreq s) (maxFreq s) 0)" "fftData s' = fftData s"
    using e by auto
  from build_inv [OF s'(1)] s' show ?thesis
    by blast
qed

text \<open>
  C10, as the code has it. Take a component whose sample rate is \<open>+0.0\<close> or a
  positive number (not \<open>-0.0\<close>, and not a negative number), whose scale entries are
  not negative and whose bars have their primary and end bins in
  \<open>[0, fftSize - 1]\<close> (a new component, with its empty vectors, is one). A build
  with a nonzero stride returns, appends the kept frequencies to the scale and one
  bar for every entry of the scale to the table, and keeps all three properties:
  every bar, old or new, has its primary bin and its end bin in
  \<open>[0, fftSize - 1]\<close>. So \<open>drawFrame\<close> on any spectrum buffer of \<open>2 * fftSize\<close>
  elements reads inside the buffer only: it returns the heights and not
  \<open>OutOfBounds\<close>.
\<close>

theorem bars_within_spectrum:
  assumes "sampleRate s = Finite r" and "0 \<le> r" and "groupNotes \<noteq> 0"
    and "set (temperedScale s) \<subseteq> {0..}"
    and "set (map dataIdx (allBars s)) \<subseteq> {0 .. int fftSize - 1}"
    and "set (map endIdx (allBars s)) \<subseteq> {0 .. int fftSize - 1}"
    and "length fd = 2 * fftSize"
  shows "\<exists>s'. buildTemperedScale groupNotes s = Inr s'
           \<and> temperedScale s'
               = temperedScale s @ map freqAt (keptSteps groupNotes (minFreq s) (maxFreq s) 0)
           \<and> length (allBars s') = length (allBars s) + length (temperedScale s')
           \<and> sampleRate s' = Finite r
           \<and> set (temperedScale s') \<subseteq> {0..}
           \<and> set (map dataIdx (allBars s')) \<subseteq> {0 .. int fftSize - 1}
           \<and> set (map endIdx (allBars s')) \<subseteq> {0 .. int fftSize - 1}
           \<and> (\<exists>ys. drawFrame (s'\<lparr>fftData := fd\<rparr>) windowHeight = Inr ys)"
proof -
  let ?sr = "Finite r"
  let ?ts = "temperedScale s @ map freqAt (keptSteps groupNotes (minFreq s) (maxFreq s) 0)"
  have nonneg: "set ?ts \<subseteq> {0..}"
    using assms(4) by (auto simp: freqAt_pos less_imp_le)
  then have "binsDefined ?sr ?ts"
    by (intro binsDefined_nonneg [OF assms(2)]) auto
  then have d: "binsDefined (sampleRate s) ?ts"
    by (simp add: assms(1))
  from build_total [OF assms(3) d] obtain s'
    where b: "buildTemperedScale groupNotes s = Inr s'" and ts: "temperedScale s' = ?ts"
    by blast
  from build_inv [OF b] obtain w
    where inv: "loopInv ?sr ?ts (allBars s) (length ?ts) w" and bars: "allBars s' = bars w"
    unfolding ts assms(1) by blast
  from inv have di: "map dataIdx (bars w) = map dataIdx (allBars s) @ map (startIdx ?sr ?ts) [0..<length ?ts]"
    and ei: "map endIdx (bars w) = map endIdx (allBars s) @ map (endOf ?sr ?ts) [0..<length ?ts]"
    unfolding loopInv_def by blast+
  have bin: "0 \<le> binAt ?sr ?ts k \<and> binAt ?sr ?ts k \<le> int fftSize - 1" if "k < length ?ts" for k
  proof (rule binAt_range [OF assms(2)])
    from that have "?ts ! k \<in> set ?ts" by (rule nth_mem)
    with nonneg show "0 \<le> ?ts ! k" by auto
  qed
  have si: "startIdx ?sr ?ts k \<in> {0 .. int fftSize - 1}" if "k < length ?ts" for k
    using bin [OF that] startIdx_range [of ?sr ?ts k] startIdx_le_bin [of ?sr ?ts k] by simp
  have eo: "endOf ?sr ?ts k \<in> {0 .. int fftSize - 1}" if k: "k < length ?ts" for k
  proof -
    have "0 \<le> endOf ?sr ?ts k \<and> endOf ?sr ?ts k \<le> int fftSize - 1"
      by (rule endOf_range) (use bin k in simp_all)
    then show ?thesis by simp
  qed
  have dr: "set (map dataIdx (bars w)) \<subseteq> {0 .. int fftSize - 1}"
    unfolding di using assms(5) si by auto
  have er: "set (map endIdx (bars w)) \<subseteq> {0 .. int fftSize - 1}"
    unfolding ei using assms(6) eo by auto
  have "\<exists>ys. drawBars fd windowHeight (bars w) = Inr ys"
  proof (rule drawBars_ok)
    fix x assume x: "x \<in> set (bars w)"
    then have "dataIdx x \<in> set (map dataIdx (bars w))" "endIdx x \<in> set (map endIdx (bars w))"
      by simp_all
    with dr er have "dataIdx x \<in> {0 .. int fftSize - 1}" "endIdx x \<in> {0 .. int fftSize - 1}"
      by blast+
    with assms(7) fftSize_pos
    show "0 \<le> dataIdx x \<and> dataIdx x < int (length fd) \<and> endIdx x < int (length fd)"
      by simp
  qed
  then have df: "\<exists>ys. drawFrame (s'\<lparr>fftData := fd\<rparr>) windowHeight = Inr ys"
    by (simp add: drawFrame_def bars)
  from build_frame [OF b] have sr: "sampleRate s' = Finite r"
    by (simp add: assms(1))
  from nonneg have nn: "set (temperedScale s') \<subseteq> {0..}"
    by (simp only: ts)
  from dr er have dr': "set (map dataIdx (allBars s')) \<subseteq> {0 .. int fftSize - 1}"
    and er': "set (map endIdx (allBars s')) \<subseteq> {0 .. int fftSize - 1}"
    by (simp_all only: bars)
  from b ts build_lengths [OF b] sr nn dr' er' df show ?thesis
    by blast
qed

text \<open>The constructor's build at 44.1 kHz; its table is not empty.\<close>


theorem bars_within_spectrum_witness:
  "sampleRate (fresh (Finite 44100)) = Finite 44100 \<and> (0::real) \<le> 44100 \<and> (2::int) \<noteq> 0
   \<and> set (temperedScale (fresh (Finite 44100))) \<subseteq> {0..}
   \<and> set (map dataIdx (allBars (fresh (Finite 44100)))) \<subseteq> {0 .. int fftSize - 1}
   \<and> set (map endIdx (allBars (fresh (Finite 44100)))) \<subseteq> {0 .. int fftSize - 1}
   \<and> length (replicate (2 * fftSize) (0::real)) = 2 * fftSize
   \<and> (\<exists>s'. buildTemperedScale 2 (fresh (Finite 44100)) = Inr s'
           \<and> temperedScale s' = map freqAt (keptSteps 2 20 22000 0)
           \<and> length (allBars s') = length (temperedScale s')
           \<and> allBars s' \<noteq> []
           \<and> sampleRate s' = Finite 44100
           \<and> set (temperedScale s') \<subseteq> {0..}
           \<and> set (map dataIdx (allBars s')) \<subseteq> {0 .. int fftSize - 1}
           \<and> set (map endIdx (allBars s')) \<subseteq> {0 .. int fftSize - 1}
           \<and> (\<exists>ys. drawFrame (s'\<lparr>fftData := replicate (2 * fftSize) 0\<rparr>) 500 = Inr ys))"
proof -
  have h: "sampleRate (fresh (Finite 44100)) = Finite 44100" "(0::real) \<le> 44100" "(2::int) \<noteq> 0"
    "set (temperedScale (fresh (Finite 44100))) \<subseteq> {0..}"
    "set (map dataIdx (allBars (fresh (Finite 44100)))) \<subseteq> {0 .. int fftSize - 1}"
    "set (map endIdx (allBars (fresh (Finite 44100)))) \<subseteq> {0 .. int fftSize - 1}"
    "length (replicate (2 * fftSize) (0::real)) = 2 * fftSize"
    by (simp_all add: fresh_def)
  from bars_within_spectrum [OF h, of 500] obtain s'
    where s': "buildTemperedScale 2 (fresh (Finite 44100)) = Inr s'"
      "temperedScale s' = map freqAt (keptSteps 2 20 22000 0)"
      "length (allBars s') = length (temperedScale s')"
      "sampleRate s' = Finite 44100"
      "set (temperedScale s') \<subseteq> {0..}"
      "set (map dataIdx (allBars s')) \<subseteq> {0 .. int fftSize - 1}"
      "set (map endIdx (allBars s')) \<subseteq> {0 .. int fftSize - 1}"
      "\<exists>ys. drawFrame (s'\<lparr>fftData := replicate (2 * fftSize) 0\<rparr>) 500 = Inr ys"
    by (auto simp: fresh_def)
  from s'(2,3) default_scale_nonempty have "allBars s' \<noteq> []"
    by auto
  with h s' show ?thesis
    by blast
qed

section \<open>The default configuration\<close>

lemma constructed_defined:
  assumes "binsDefined sr (map freqAt (keptSteps 2 20 22000 0))"
  shows "\<exists>w. buildTemperedScale 2 (fresh sr) = Inr (constructed sr)
           \<and> temperedScale (constructed sr) = map freqAt (keptSteps 2 20 22000 0)
           \<and> allBars (constructed sr) = bars w
           \<and> loopInv sr (temperedScale (constructed sr)) [] (length (temperedScale (constructed sr))) w
           \<and> fftData (constructed sr) = fftData (fresh sr)"
proof -
  have "\<exists>s' w. buildTemperedScale 2 (fresh sr) = Inr s'
           \<and> temperedScale s' = map freqAt (keptSteps 2 (minFreq (fresh sr)) (maxFreq (fresh sr)) 0)
           \<and> allBars s' = bars w
           \<and> loopInv (sampleRate (fresh sr)) (temperedScale s') (allBars (fresh sr)) (length (temperedScale s')) w
           \<and> fftData s' = fftData (fresh sr)"
    by (rule build_fresh_defined) (use assms in \<open>simp_all add: fresh_def\<close>)
  then obtain s' w where s': "buildTemperedScale 2 (fresh sr) = Inr s'"
    "temperedScale s' = map freqAt (keptSteps 2 20 22000 0)"
    "allBars s' = bars w"
    "loopInv sr (temperedScale s') [] (length (temperedScale s')) w"
    "fftData s' = fftData (fresh sr)"
    by (auto simp: fresh_def)
  from s'(1) have "constructed sr = s'"
    by (simp add: constructed_def)
  with s' show ?thesis by blast
qed

lemma constructed_ok:
  assumes "0 \<le> sr"
  shows "buildTemperedScale 2 (fresh (Finite sr)) = Inr (constructed (Finite sr))"
  using constructed_defined [OF binsDefined_kept [OF assms]] by blast

text \<open>At \<open>_sampleRate = -44100\<close> every frequency of the default range has a negative bin.\<close>

lemma freqToBin_minus_44100:
  assumes "20 \<le> f" and "f \<le> 22000"
  shows "\<exists>b. freqToBin (Finite (- 44100)) f = Some b \<and> b < 0"
proof -
  let ?q = "f * real fftSize / (- 44100)"
  from assms have "?q \<le> - 1 / 2" "- 1022 \<le> ?q"
    by (simp_all add: fftSize_eq)
  then have "round_c ?q \<le> round_c (- 1 / 2)" "round_c (- 1022) \<le> round_c ?q"
    by (simp_all add: round_c_mono)
  then have "round_c ?q \<le> - 1" "- 1022 \<le> round_c ?q"
    by (simp_all add: round_c_def)
  then show ?thesis
    by (simp add: freqToBin_def Let_def fftSize_eq)
qed

lemma default_scale_range:
  "k < length (keptSteps 2 20 22000 0) \<Longrightarrow>
   20 \<le> map freqAt (keptSteps 2 20 22000 0) ! k \<and> map freqAt (keptSteps 2 20 22000 0) ! k \<le> 22000"
  by (rule kept_freqs_range [of _ 2 20 22000 0]) simp

lemma binsDefined_minus_44100: "binsDefined (Finite (- 44100)) (map freqAt (keptSteps 2 20 22000 0))"
  unfolding binsDefined_def
proof (intro allI impI)
  fix k assume "k < length (map freqAt (keptSteps 2 20 22000 0))"
  then have "k < length (keptSteps 2 20 22000 0)" by simp
  from default_scale_range [OF this] freqToBin_minus_44100
  show "freqToBin (Finite (- 44100)) (map freqAt (keptSteps 2 20 22000 0) ! k) \<noteq> None"
    by fastforce
qed

text \<open>
  C10 as stated, for any finite configuration, fails: with \<open>_sampleRate = -44100\<close>
  (a finite value) the constructor's build returns a table whose first bar has a
  negative primary bin, and \<open>drawFrame\<close> reads \<open>fftData\<close> before its first
  element.
\<close>

theorem negative_rate_reads_before_buffer:
  "buildTemperedScale 2 (fresh (Finite (- 44100))) = Inr (constructed (Finite (- 44100)))
   \<and> allBars (constructed (Finite (- 44100))) \<noteq> []
   \<and> dataIdx (hd (allBars (constructed (Finite (- 44100))))) < 0
   \<and> drawFrame (constructed (Finite (- 44100))) 500 = Inl OutOfBounds"
proof -
  let ?ts = "map freqAt (keptSteps 2 20 22000 0)"
  from constructed_defined [OF binsDefined_minus_44100] obtain w
    where b: "buildTemperedScale 2 (fresh (Finite (- 44100))) = Inr (constructed (Finite (- 44100)))"
      and ts: "temperedScale (constructed (Finite (- 44100))) = ?ts"
      and bars: "allBars (constructed (Finite (- 44100))) = bars w"
      and inv: "loopInv (Finite (- 44100)) ?ts [] (length ?ts) w"
    by auto
  from default_scale_nonempty have n: "0 < length ?ts" by simp
  then have upt: "[0..<length ?ts] = 0 # [1..<length ?ts]"
    by (simp add: upt_conv_Cons)
  from inv have len: "length (bars w) = length ?ts"
    and di: "map dataIdx (bars w) = map (startIdx (Finite (- 44100)) ?ts) [0..<length ?ts]"
    and ei: "map endIdx (bars w) = map (endOf (Finite (- 44100)) ?ts) [0..<length ?ts]"
    unfolding loopInv_def by simp_all
  from len n obtain x xs where w: "bars w = x # xs"
    by (cases "bars w") auto
  from di ei have x: "dataIdx x = startIdx (Finite (- 44100)) ?ts 0" "endIdx x = endOf (Finite (- 44100)) ?ts 0"
    unfolding w upt by simp_all
  from n have "0 < length (keptSteps 2 20 22000 0)" by simp
  from default_scale_range [OF this] freqToBin_minus_44100 [of "?ts ! 0"]
  have "binAt (Finite (- 44100)) ?ts 0 < 0"
    by (auto simp: binAt_def)
  then have neg: "dataIdx x < 0"
    by (simp add: x startIdx_def prevBinBefore_def)
  have "endIdx x = 0 \<or> dataIdx x \<le> endIdx x"
    by (auto simp: x endOf_def)
  with neg have "barHeightOf (fftData (constructed (Finite (- 44100)))) 500 x = Inl OutOfBounds"
    by (rule barHeightOf_negative)
  then have "drawFrame (constructed (Finite (- 44100))) 500 = Inl OutOfBounds"
    by (simp add: drawFrame_def bars w)
  with b bars w neg show ?thesis by simp
qed

section \<open>Building again\<close>

lemma constructed_facts:
  assumes "0 \<le> sr"
  shows "buildTemperedScale 2 (fresh (Finite sr)) = Inr (constructed (Finite sr))"
    and "temperedScale (constructed (Finite sr)) = map freqAt (keptSteps 2 20 22000 0)"
    and "length (allBars (constructed (Finite sr))) = length (keptSteps 2 20 22000 0)"
    and "sampleRate (constructed (Finite sr)) = Finite sr"
    and "minFreq (constructed (Finite sr)) = 20"
    and "maxFreq (constructed (Finite sr)) = 22000"
proof -
  from constructed_defined [OF binsDefined_kept [OF assms]] obtain w
    where b: "buildTemperedScale 2 (fresh (Finite sr)) = Inr (constructed (Finite sr))"
      and ts: "temperedScale (constructed (Finite sr)) = map freqAt (keptSteps 2 20 22000 0)"
    by blast
  show "buildTemperedScale 2 (fresh (Finite sr)) = Inr (constructed (Finite sr))" by (rule b)
  show "temperedScale (constructed (Finite sr)) = map freqAt (keptSteps 2 20 22000 0)" by (rule ts)
  from build_lengths [OF b] ts
  show "length (allBars (constructed (Finite sr))) = length (keptSteps 2 20 22000 0)"
    by (simp add: fresh_def)
  from build_frame [OF b]
  show "sampleRate (constructed (Finite sr)) = Finite sr" "minFreq (constructed (Finite sr)) = 20" "maxFreq (constructed (Finite sr)) = 22000"
    by (simp_all add: fresh_def)
qed

lemma rebuilt_ok:
  assumes "sampleRate s = Finite r" and "0 \<le> r" and "\<forall>f \<in> set (temperedScale s). 0 \<le> f"
  shows "buildTemperedScale 2 s = Inr (rebuilt s)"
    and "temperedScale (rebuilt s) = temperedScale s @ map freqAt (keptSteps 2 (minFreq s) (maxFreq s) 0)"
proof -
  have "binsDefined (sampleRate s) (temperedScale s @ map freqAt (keptSteps 2 (minFreq s) (maxFreq s) 0))"
    unfolding assms(1)
    by (rule binsDefined_nonneg [OF assms(2)]) (use assms(3) in \<open>auto simp: freqAt_pos less_imp_le\<close>)
  from build_total [OF _ this] obtain s' where s': "buildTemperedScale 2 s = Inr s'"
    "temperedScale s' = temperedScale s @ map freqAt (keptSteps 2 (minFreq s) (maxFreq s) 0)"
    by auto
  then have "rebuilt s = s'"
    by (simp add: rebuilt_def)
  with s' show "buildTemperedScale 2 s = Inr (rebuilt s)"
    and "temperedScale (rebuilt s) = temperedScale s @ map freqAt (keptSteps 2 (minFreq s) (maxFreq s) 0)"
    by simp_all
qed

text \<open>
  C6. \<open>buildTemperedScale\<close> appends to \<open>temperedScale\<close> and \<open>allBars\<close> and
  never clears them. Called a second time on the component the constructor built at
  44.1 kHz, with the same stride, it leaves a scale twice as long and a table three
  times as long as after the first call: the second call walks the doubled scale and
  appends a bar for each of its entries.
\<close>

theorem second_build_grows_tables:
  "buildTemperedScale 2 (fresh (Finite 44100)) = Inr (constructed (Finite 44100))
   \<and> buildTemperedScale 2 (constructed (Finite 44100)) = Inr (rebuilt (constructed (Finite 44100)))
   \<and> 0 < length (allBars (constructed (Finite 44100)))
   \<and> length (allBars (constructed (Finite 44100))) = length (temperedScale (constructed (Finite 44100)))
   \<and> length (temperedScale (rebuilt (constructed (Finite 44100)))) = 2 * length (temperedScale (constructed (Finite 44100)))
   \<and> length (allBars (rebuilt (constructed (Finite 44100)))) = 3 * length (allBars (constructed (Finite 44100)))"
proof -
  let ?c = "constructed (Finite 44100)"
  note c = constructed_facts [of 44100, simplified]
  have pos: "\<forall>f \<in> set (temperedScale ?c). 0 \<le> f"
    unfolding c(2) by (auto simp: freqAt_pos less_imp_le)
  have sr: "sampleRate ?c = Finite 44100"
    by (simp add: c(4))
  have "0 \<le> (44100::real)"
    by simp
  note r = rebuilt_ok [OF sr this pos]
  have l2: "length (temperedScale (rebuilt ?c)) = 2 * length (temperedScale ?c)"
    by (simp add: r(2) c)
  from build_lengths [OF r(1)] l2 c(2,3)
  have l3: "length (allBars (rebuilt ?c)) = 3 * length (allBars ?c)"
    by simp
  have "0 < length (allBars ?c)"
    using default_scale_nonempty by (simp add: c(3))
  with c(1) r(1) l2 l3 c(2,3) show ?thesis
    by simp
qed

section \<open>Sample rates that are not positive\<close>



lemma new_bar_dataIdx:
  assumes "loopInv sr ts bs0 (length ts) w" and "k < length ts"
  shows "dataIdx (bars w ! (length bs0 + k)) = startIdx sr ts k"
proof -
  from assms(1) have len: "length (bars w) = length bs0 + length ts"
    and di: "map dataIdx (bars w) = map dataIdx bs0 @ map (startIdx sr ts) [0..<length ts]"
    unfolding loopInv_def by simp_all
  from len assms(2) have "dataIdx (bars w ! (length bs0 + k)) = map dataIdx (bars w) ! (length bs0 + k)"
    by simp
  also have "\<dots> = startIdx sr ts k"
    unfolding di using assms(2) by (simp add: nth_append)
  finally show ?thesis .
qed

text \<open>With a sample rate of \<open>-inf\<close> every quotient is a zero, and every bin is 0.\<close>

lemma binAt_neginf_rate: "binAt NegInf ts k = 0"
  by (simp add: binAt_def freqToBin_def)

lemma startIdx_neginf_rate: "startIdx NegInf ts k = 0"
  by (simp add: startIdx_def binAt_neginf_rate)








section \<open>The first entries of the default scale\<close>

lemma freqAt_add: "freqAt (i + j) = freqAt i * root24 ^ j"
  by (simp add: freqAt_power power_add)

lemma root24_pow12: "7 / 5 < root24 ^ 12 \<and> root24 ^ 12 \<le> 3 / 2"
proof -
  let ?r = "root24 ^ 12"
  have sq: "?r ^ 2 = 2"
    using root24_pow24 by (simp add: power_mult [symmetric])
  have pos: "0 \<le> ?r"
    using root24_gt_1 by simp
  have "7 / 5 < ?r"
  proof (rule ccontr)
    assume "\<not> 7 / 5 < ?r"
    then have "?r \<le> 7 / 5" by simp
    then have "?r ^ 2 \<le> (7 / 5) ^ 2"
      using pos by (rule power_mono)
    with sq show False by (simp add: power2_eq_square)
  qed
  moreover have "?r \<le> 3 / 2"
  proof (rule ccontr)
    assume "\<not> ?r \<le> 3 / 2"
    then have "3 / 2 < ?r" by simp
    then have "(3 / 2) ^ 2 < ?r ^ 2"
      by (intro power_strict_mono) simp_all
    with sq show False by (simp add: power2_eq_square)
  qed
  ultimately show ?thesis by simp
qed

lemma root24_pow10: "root24 ^ 10 \<le> 11 / 8"
proof (rule ccontr)
  assume "\<not> root24 ^ 10 \<le> 11 / 8"
  then have "11 / 8 < root24 ^ 10" by simp
  then have "(11 / 8) ^ 12 < (root24 ^ 10) ^ 12"
    by (intro power_strict_mono) simp_all
  moreover have "(root24 ^ 10) ^ 12 = (root24 ^ 24) ^ 5"
    by (simp add: power_mult [symmetric])
  ultimately have "(11 / 8 :: real) ^ 12 < 2 ^ 5"
    by (simp only: root24_pow24)
  then show False
    by (simp add: power_divide)
qed

lemma root24_pow96: "root24 ^ 96 = 16"
proof -
  have "root24 ^ 96 = (root24 ^ 24) ^ 4"
    by (simp add: power_mult [symmetric])
  then show ?thesis
    by (simp add: root24_pow24)
qed

lemma freqAt_18: "freqAt 18 = 55 / 2"
proof -
  have "freqAt 114 = freqAt 18 * root24 ^ 96"
    using freqAt_add [of 18 96] by simp
  then show ?thesis
    by (simp add: freqAt_114 root24_pow96)
qed

lemma freqAt_6: "freqAt 6 < 20"
proof -
  have "freqAt 114 = freqAt 6 * root24 ^ (96 + 12)"
    using freqAt_add [of 6 108] by simp
  then have e: "freqAt 6 * (16 * root24 ^ 12) = 440"
    by (simp only: power_add freqAt_114 root24_pow96)
  have "freqAt 6 * (16 * (7 / 5)) < freqAt 6 * (16 * root24 ^ 12)"
    using root24_pow12 freqAt_pos [of 6] by simp
  with e show ?thesis by simp
qed

lemma freqAt_8: "20 \<le> freqAt 8"
proof -
  have "freqAt 114 = freqAt 8 * root24 ^ (96 + 10)"
    using freqAt_add [of 8 106] by simp
  then have e: "freqAt 8 * (16 * root24 ^ 10) = 440"
    by (simp only: power_add freqAt_114 root24_pow96)
  have "freqAt 8 * (16 * root24 ^ 10) \<le> freqAt 8 * (16 * (11 / 8))"
    using root24_pow10 freqAt_pos [of 8] by simp
  with e show ?thesis by simp
qed

lemma low_steps:
  "\<not> 20 \<le> freqAt 0" "\<not> 20 \<le> freqAt 2" "\<not> 20 \<le> freqAt 4" "\<not> 20 \<le> freqAt 6"
  "20 \<le> freqAt 8" "20 \<le> freqAt 10" "20 \<le> freqAt 12"
  using freqAt_6 freqAt_8 freqAt_mono [of 0 6] freqAt_mono [of 2 6] freqAt_mono [of 4 6]
    freqAt_mono [of 8 10] freqAt_mono [of 8 12]
  by simp_all

lemma low_steps_upper: "freqAt 8 \<le> 55 / 2" "freqAt 10 \<le> 55 / 2" "freqAt 12 \<le> 55 / 2"
  using freqAt_mono [of 8 18] freqAt_mono [of 10 18] freqAt_mono [of 12 18]
  by (simp_all add: freqAt_18)

lemma default_kept_head:
  "\<exists>rest. keptSteps 2 20 22000 0 = 8 # 10 # 12 # rest"
proof -
  have "freqAt 12 \<le> 22000"
    using low_steps_upper(3) by simp
  then have "12 < stopIndex 22000"
    by (rule below_stopIndex)
  then have "13 \<le> stopIndex 22000" by simp
  then have e1: "[0..<stopIndex 22000] = [0..<13] @ [13..<stopIndex 22000]"
    using upt_add_eq_append [of 0 13 "stopIndex 22000 - 13"] by simp
  have e2: "[0..<13] = [0, 1, 2, 3, 4, 5, 6, 7, 8, 9, 10, 11, 12::nat]"
    by code_simp
  have e3: "filter (\<lambda>j. 20 \<le> freqAt j \<and> int j smod 2 = 0)
              [0, 1, 2, 3, 4, 5, 6, 7, 8, 9, 10, 11, 12] = [8, 10, 12]"
    by (simp add: low_steps signed_modulo_int_def)
  show ?thesis
    unfolding keptSteps_def e1 filter_append e2 e3 by simp
qed

lemma bin_of_low_freq: "20 \<le> f \<Longrightarrow> f \<le> 55 / 2 \<Longrightarrow> freqToBin (Finite 44100) f = Some 1"
proof -
  assume a: "20 \<le> f" "f \<le> 55 / 2"
  let ?q = "f * real fftSize / 44100"
  from a have "1 / 2 \<le> ?q" "?q < 3 / 2"
    by (simp_all add: fftSize_eq)
  then have "round_c ?q = 1"
    unfolding round_c_def by (simp add: floor_eq_iff)
  then show ?thesis
    by (simp add: freqToBin_def Let_def fftSize_eq)
qed

section \<open>The starting bin of a bar\<close>

text \<open>
  C4, as the code has it. In every build that returns, for every bar (the first
  included, where \<open>prevBin\<close> is 0): if \<open>prevBin > 0\<close> and the bar's own bin is at
  least \<open>prevBin + 1\<close>, the bar starts at \<open>prevBin + 1\<close>; otherwise it starts at
  its own bin. Here \<open>prevBin\<close> is the loop's variable when the iteration of that bar
  begins: the bin of the previous entry, moved up by \<open>round ((bin - previous bin) / 2)\<close>
  when this bar's bin is more than one above it.
\<close>

theorem start_bin_rule:
  assumes "buildTemperedScale groupNotes s = Inr s'" and "index < length (temperedScale s')"
  shows "\<exists>w bin. barLoop (sampleRate s) (temperedScale s') index
                    \<lparr>prevBin = 0, prevIdx = 0, nBars = 0, bars = allBars s\<rparr> = Inr w
           \<and> freqToBin (sampleRate s) (temperedScale s' ! index) = Some bin
           \<and> prevBin w = (if index = 0 then 0
                           else prevBinAfter (sampleRate s) (temperedScale s') (index - 1))
           \<and> dataIdx (allBars s' ! (length (allBars s) + index))
               = (if prevBin w > 0 \<and> prevBin w + 1 \<le> bin then prevBin w + 1 else bin)"
proof -
  let ?sr = "sampleRate s"
  let ?ts = "temperedScale s'"
  from build_inv [OF assms(1)] obtain wf
    where inv: "loopInv ?sr ?ts (allBars s) (length ?ts) wf"
      and bars: "allBars s' = bars wf"
      and d: "binsDefined ?sr ?ts"
    by blast
  from assms(2) have "index \<le> length ?ts" by simp
  from barLoop_inv [OF d this, of "allBars s"] obtain w
    where w: "barLoop ?sr ?ts index \<lparr>prevBin = 0, prevIdx = 0, nBars = 0, bars = allBars s\<rparr> = Inr w"
      and winv: "loopInv ?sr ?ts (allBars s) index w"
    by blast
  from d assms(2) obtain bin where bin: "freqToBin ?sr (?ts ! index) = Some bin"
    by (auto simp: binsDefined_def)
  from winv have pb: "prevBin w = prevBinBefore ?sr ?ts index"
    by (simp add: loopInv_def)
  have "dataIdx (allBars s' ! (length (allBars s) + index)) = startIdx ?sr ?ts index"
    unfolding bars by (rule new_bar_dataIdx [OF inv assms(2)])
  also have "\<dots> = (if prevBin w > 0 \<and> prevBin w + 1 \<le> bin then prevBin w + 1 else bin)"
    by (simp add: startIdx_def pb binAt_def bin)
  finally show ?thesis
    using w bin pb by (simp add: prevBinBefore_def)
qed

lemma default_scale_head:
  "\<exists>rest. temperedScale (constructed (Finite 44100)) = freqAt 8 # freqAt 10 # freqAt 12 # rest"
  using default_kept_head by (auto simp: constructed_facts)

lemma default_bins:
  "freqToBin (Finite 44100) (freqAt 8) = Some 1" "freqToBin (Finite 44100) (freqAt 10) = Some 1"
  "freqToBin (Finite 44100) (freqAt 12) = Some 1"
  by (rule bin_of_low_freq, rule low_steps, rule low_steps_upper)+

theorem start_bin_rule_witness:
  "buildTemperedScale 2 (fresh (Finite 44100)) = Inr (constructed (Finite 44100))
   \<and> 1 < length (temperedScale (constructed (Finite 44100)))
   \<and> (\<exists>w bin. barLoop (sampleRate (fresh (Finite 44100))) (temperedScale (constructed (Finite 44100))) 1
                    \<lparr>prevBin = 0, prevIdx = 0, nBars = 0, bars = allBars (fresh (Finite 44100))\<rparr> = Inr w
           \<and> freqToBin (sampleRate (fresh (Finite 44100))) (temperedScale (constructed (Finite 44100)) ! 1) = Some bin
           \<and> prevBin w = prevBinAfter (sampleRate (fresh (Finite 44100))) (temperedScale (constructed (Finite 44100))) 0
           \<and> dataIdx (allBars (constructed (Finite 44100)) ! (length (allBars (fresh (Finite 44100))) + 1))
               = (if prevBin w > 0 \<and> prevBin w + 1 \<le> bin then prevBin w + 1 else bin))"
proof -
  have b: "buildTemperedScale 2 (fresh (Finite 44100)) = Inr (constructed (Finite 44100))"
    by (simp add: constructed_facts)
  have l: "1 < length (temperedScale (constructed (Finite 44100)))"
    using default_scale_head by auto
  from start_bin_rule [OF b l] b l show ?thesis
    by simp
qed

text \<open>
  C4 as stated fails at the second bar of the default table at 44.1 kHz: when its
  iteration begins \<open>prevBin\<close> is 1, its own bin is 1, which is at most
  \<open>prevBin + 1\<close>, and it starts at bin 1, not at \<open>prevBin + 1 = 2\<close>.
\<close>

theorem second_bar_keeps_own_bin:
  "buildTemperedScale 2 (fresh (Finite 44100)) = Inr (constructed (Finite 44100))
   \<and> barLoop (Finite 44100) (temperedScale (constructed (Finite 44100))) 1
        \<lparr>prevBin = 0, prevIdx = 0, nBars = 0, bars = []\<rparr>
       = Inr \<lparr>prevBin = 1, prevIdx = 1, nBars = 1,
              bars = [\<lparr>posX = 0, dataIdx = 1, endIdx = 0, factor = 0\<rparr>]\<rparr>
   \<and> freqToBin (Finite 44100) (temperedScale (constructed (Finite 44100)) ! 1) = Some 1
   \<and> dataIdx (allBars (constructed (Finite 44100)) ! 1) = 1
   \<and> startBin_spec 1 1 = 2"
proof -
  let ?c = "constructed (Finite 44100)"
  let ?ts = "temperedScale ?c"
  have b: "buildTemperedScale 2 (fresh (Finite 44100)) = Inr ?c"
    by (simp add: constructed_facts)
  from default_scale_head obtain rest where ts: "?ts = freqAt 8 # freqAt 10 # freqAt 12 # rest"
    by blast
  have b0: "freqToBin (Finite 44100) (?ts ! 0) = Some 1" and b1: "freqToBin (Finite 44100) (?ts ! 1) = Some 1"
    unfolding ts by (simp_all add: default_bins)
  have n1: "Suc 0 < length ?ts"
    unfolding ts by simp
  have step: "barStep (Finite 44100) ?ts 0 \<lparr>prevBin = 0, prevIdx = 0, nBars = 0, bars = []\<rparr>
              = Inr \<lparr>prevBin = 1, prevIdx = 1, nBars = 1,
                     bars = [\<lparr>posX = 0, dataIdx = 1, endIdx = 0, factor = 0\<rparr>]\<rparr>"
    using barStep_eq [of "Finite 44100" ?ts 0 1 1 "\<lparr>prevBin = 0, prevIdx = 0, nBars = 0, bars = []\<rparr>"] b0 b1
    by simp
  have loop: "barLoop (Finite 44100) ?ts 1 \<lparr>prevBin = 0, prevIdx = 0, nBars = 0, bars = []\<rparr>
              = Inr \<lparr>prevBin = 1, prevIdx = 1, nBars = 1,
                     bars = [\<lparr>posX = 0, dataIdx = 1, endIdx = 0, factor = 0\<rparr>]\<rparr>"
    using step by simp
  from build_inv [OF b] obtain wf
    where inv: "loopInv (Finite 44100) ?ts [] (length ?ts) wf" and bars: "allBars ?c = bars wf"
    by (auto simp: fresh_def)
  from new_bar_dataIdx [OF inv n1] have "dataIdx (allBars ?c ! 1) = startIdx (Finite 44100) ?ts 1"
    by (simp add: bars)
  also have "\<dots> = 1"
    using b0 b1 n1 by (simp add: startIdx_def prevBinBefore_def prevBinAfter_def binAt_def)
  finally have d: "dataIdx (allBars ?c ! 1) = 1" .
  from b loop b1 d show ?thesis
    by (simp add: startBin_spec_def)
qed

section \<open>The last run of the table\<close>

lemma strict_sorted_nth_mono:
  fixes xs :: "nat list"
  assumes "sorted_wrt (<) xs" and "i \<le> j" and "j < length xs"
  shows "xs ! i \<le> xs ! j"
proof (cases "i = j")
  case True
  then show ?thesis by simp
next
  case False
  with assms(2) have "i < j" by simp
  from sorted_wrt_nth_less [OF assms(1) this assms(3)] show ?thesis by simp
qed

lemma strict_sorted_index_less:
  fixes xs :: "nat list"
  assumes "sorted_wrt (<) xs" and "i < length xs" and "j < length xs" and "xs ! i < xs ! j"
  shows "i < j"
proof (rule ccontr)
  assume "\<not> i < j"
  then have "j \<le> i" by simp
  from strict_sorted_nth_mono [OF assms(1) this assms(2)] assms(4) show False by simp
qed

lemma strict_sorted_last_three:
  fixes xs :: "nat list"
  assumes s: "sorted_wrt (<) xs" and "a \<in> set xs" and "b \<in> set xs" and "c \<in> set xs"
    and "a < b" and "b < c"
  shows "3 \<le> length xs \<and> a \<le> xs ! (length xs - 3) \<and> b \<le> xs ! (length xs - 2)
       \<and> c \<le> xs ! (length xs - 1)"
proof -
  from assms(2,3,4) obtain i j k
    where i: "i < length xs" "xs ! i = a" and j: "j < length xs" "xs ! j = b"
      and k: "k < length xs" "xs ! k = c"
    by (auto simp: in_set_conv_nth)
  have ij: "i < j"
    by (rule strict_sorted_index_less [OF s i(1) j(1)]) (simp add: i j assms(5))
  have jk: "j < k"
    by (rule strict_sorted_index_less [OF s j(1) k(1)]) (simp add: j k assms(6))
  from ij jk k(1) have n: "3 \<le> length xs" "i \<le> length xs - 3" "j \<le> length xs - 2"
    "k \<le> length xs - 1" by simp_all
  from n(1) have lt: "length xs - 3 < length xs" "length xs - 2 < length xs" "length xs - 1 < length xs"
    by simp_all
  from strict_sorted_nth_mono [OF s n(2) lt(1)] strict_sorted_nth_mono [OF s n(3) lt(2)]
    strict_sorted_nth_mono [OF s n(4) lt(3)] n(1) i j k
  show ?thesis by simp
qed

lemma freqAt_246: "freqAt 246 \<le> 22000"
proof -
  have "freqAt 246 = freqAt 234 * root24 ^ 12"
    using freqAt_add [of 234 12] by simp
  also have "\<dots> \<le> 14080 * (3 / 2)"
    using root24_pow12 by (simp add: freqAt_234)
  finally show ?thesis by simp
qed

lemma high_steps_kept:
  "234 \<in> set (keptSteps 2 20 22000 0)" "236 \<in> set (keptSteps 2 20 22000 0)"
  "238 \<in> set (keptSteps 2 20 22000 0)"
proof -
  have up: "freqAt 234 \<le> 22000" "freqAt 236 \<le> 22000" "freqAt 238 \<le> 22000"
    using freqAt_246 freqAt_mono [of 234 246] freqAt_mono [of 236 246] freqAt_mono [of 238 246]
    by simp_all
  have lo: "20 \<le> freqAt 234" "20 \<le> freqAt 236" "20 \<le> freqAt 238"
    using freqAt_mono [of 234 236] freqAt_mono [of 234 238] by (simp_all add: freqAt_234)
  show "234 \<in> set (keptSteps 2 20 22000 0)"
    by (rule kept_member) (simp_all add: up lo smod_2_even)
  show "236 \<in> set (keptSteps 2 20 22000 0)"
    by (rule kept_member) (simp_all add: up lo smod_2_even)
  show "238 \<in> set (keptSteps 2 20 22000 0)"
    by (rule kept_member) (simp_all add: up lo smod_2_even)
qed

text \<open>The last three entries of the default scale are at least 14080 Hz.\<close>

lemma default_scale_tail:
  defines "ts \<equiv> map freqAt (keptSteps 2 20 22000 0)"
  shows "3 \<le> length ts \<and> 14080 \<le> ts ! (length ts - 3) \<and> 14080 \<le> ts ! (length ts - 2)
       \<and> 14080 \<le> ts ! (length ts - 1)"
proof -
  let ?ks = "keptSteps 2 20 22000 0"
  from strict_sorted_last_three [OF keptSteps_sorted high_steps_kept]
  have t: "3 \<le> length ?ks" "234 \<le> ?ks ! (length ?ks - 3)" "234 \<le> ?ks ! (length ?ks - 2)"
    "234 \<le> ?ks ! (length ?ks - 1)"
    by simp_all
  have "14080 \<le> freqAt (?ks ! k)" if "234 \<le> ?ks ! k" for k
    using freqAt_mono [OF that] by (simp add: freqAt_234)
  with t show ?thesis
    by (simp add: ts_def)
qed

lemma bin_of_high_freq: "14080 \<le> f \<Longrightarrow> freqToBin (Finite 22050) f = Some 2047"
proof -
  assume a: "14080 \<le> f"
  let ?q = "f * real fftSize / 22050"
  from a have "1024 \<le> ?q"
    by (simp add: fftSize_eq)
  then have "round_c 1024 \<le> round_c ?q"
    by (rule round_c_mono)
  then have "1024 \<le> round_c ?q"
    by (simp add: round_c_def)
  then show ?thesis
    by (simp add: freqToBin_def Let_def fftSize_eq)
qed

lemma run_of_equal_bins:
  assumes b0: "binAt sr ts m = b" and b1: "binAt sr ts (Suc m) = b" and b2: "binAt sr ts (Suc (Suc m)) = b"
    and pos: "0 < b"
  shows "startIdx sr ts (Suc m) = b \<and> startIdx sr ts (Suc (Suc m)) = b"
proof -
  have "prevBinAfter sr ts m = b" "prevBinAfter sr ts (Suc m) = b"
    by (simp_all add: prevBinAfter_def b0 b1 b2)
  then show ?thesis
    by (simp add: startIdx_def prevBinBefore_def b1 b2)
qed

text \<open>
  C5. The factors of a run are written when the next bar starts a new run; nothing
  writes them for the run that is still open when the loop ends. At a sample rate of
  22050 Hz the last entries of the default scale all have bin \<open>fftSize - 1\<close>: the
  table ends in a run of at least two bars with primary bin 2047, and the factors of
  its last two bars are 0, where a finished run would have \<open>(k - 1) / k\<close> and
  \<open>k / k = 1\<close>.
\<close>

theorem final_run_factors_zero:
  "buildTemperedScale 2 (fresh (Finite 22050)) = Inr (constructed (Finite 22050))
   \<and> 2 \<le> length (allBars (constructed (Finite 22050)))
   \<and> dataIdx (allBars (constructed (Finite 22050)) ! (length (allBars (constructed (Finite 22050))) - 2)) = 2047
   \<and> dataIdx (allBars (constructed (Finite 22050)) ! (length (allBars (constructed (Finite 22050))) - 1)) = 2047
   \<and> factor (allBars (constructed (Finite 22050)) ! (length (allBars (constructed (Finite 22050))) - 2)) = 0
   \<and> factor (allBars (constructed (Finite 22050)) ! (length (allBars (constructed (Finite 22050))) - 1)) = 0"
proof -
  let ?c = "constructed (Finite 22050)"
  let ?ts = "temperedScale ?c"
  have b: "buildTemperedScale 2 (fresh (Finite 22050)) = Inr ?c"
    by (simp add: constructed_facts)
  have ts: "?ts = map freqAt (keptSteps 2 20 22000 0)"
    by (simp add: constructed_facts)
  from default_scale_tail obtain m where n: "length ?ts = Suc (Suc (Suc m))"
    and hi: "14080 \<le> ?ts ! m" "14080 \<le> ?ts ! Suc m" "14080 \<le> ?ts ! Suc (Suc m)"
  proof -
    from default_scale_tail have l: "3 \<le> length ?ts"
      and t: "14080 \<le> ?ts ! (length ?ts - 3)" "14080 \<le> ?ts ! (length ?ts - 2)"
        "14080 \<le> ?ts ! (length ?ts - 1)"
      unfolding ts by simp_all
    from l have e: "length ?ts = Suc (Suc (Suc (length ?ts - 3)))"
      "length ?ts - 2 = Suc (length ?ts - 3)" "length ?ts - 1 = Suc (Suc (length ?ts - 3))"
      by simp_all
    from t show ?thesis
      unfolding e(2,3) using e(1) by (rule_tac that)
  qed
  have bins: "binAt (Finite 22050) ?ts m = 2047" "binAt (Finite 22050) ?ts (Suc m) = 2047"
    "binAt (Finite 22050) ?ts (Suc (Suc m)) = 2047"
    using hi by (simp_all add: binAt_def bin_of_high_freq)
  from run_of_equal_bins [OF bins] have si: "startIdx (Finite 22050) ?ts (Suc m) = 2047"
    "startIdx (Finite 22050) ?ts (Suc (Suc m)) = 2047"
    by simp_all
  from build_inv [OF b] obtain w
    where inv: "loopInv (Finite 22050) ?ts [] (length ?ts) w" and bars: "allBars ?c = bars w"
    by (auto simp: fresh_def)
  from inv have len: "length (bars w) = length ?ts"
    and run: "1 < length ?ts \<and> startIdx (Finite 22050) ?ts (length ?ts - 1) = startIdx (Finite 22050) ?ts (length ?ts - 2)
              \<longrightarrow> 1 < nBars w"
    and fz: "\<And>k. k < nBars w \<Longrightarrow> factor (bars w ! (length (bars w) - 1 - k)) = 0"
    unfolding loopInv_def by auto
  from run si have nb: "1 < nBars w"
    by (simp add: n)
  from fz [of 0] fz [of 1] nb have f: "factor (bars w ! (length (bars w) - 1)) = 0"
    "factor (bars w ! (length (bars w) - 2)) = 0"
    by (simp_all add: numeral_2_eq_2)
  have k1: "Suc m < length ?ts" and k2: "Suc (Suc m) < length ?ts"
    by (simp_all add: n)
  from new_bar_dataIdx [OF inv k1] new_bar_dataIdx [OF inv k2] si
  have d: "dataIdx (bars w ! Suc m) = 2047" "dataIdx (bars w ! Suc (Suc m)) = 2047"
    by simp_all
  have e: "length (bars w) - 2 = Suc m" "length (bars w) - 1 = Suc (Suc m)"
    by (simp_all add: len n)
  from b d f show ?thesis
    unfolding bars e using len n by simp
qed

end

